(* ===== verification/Prelude.thy ===== *)
theory Prelude
  imports Main "HOL-Library.Word" "HOL-Library.Monad_Syntax"
begin

text \<open>
  Shared vocabulary of the development: the collections the component theories feed
  (\<open>op_defs\<close>: the definitions of operations that a proof unfolds together; \<open>frame\<close>: what an
  operation leaves alone), the C integer types that occur in more than one component, and
  the generic facts on lists, options and maps the proofs share.

  Conventions. An operation of the code that may run into undefined behaviour (a freed
  cell, a null dereference) or block for ever has result type \<open>option\<close>: \<open>None\<close> means that the
  call does not return normally, so a theorem that a call returns says \<open>= Some ...\<close>.
  An operation that always returns has a plain result.
\<close>

unbundle bit_operations_syntax

named_theorems op_defs
named_theorems frame

type_synonym u8 = "8 word"
type_synonym u16 = "16 word"
type_synonym u32 = "32 word"
type_synonym u64 = "64 word"
type_synonym addr = nat

definition first_index :: "('a \<Rightarrow> bool) \<Rightarrow> 'a list \<Rightarrow> nat" where
  "first_index P xs = length (takeWhile (\<lambda>x. \<not> P x) xs)"

lemma first_index_Nil [simp]: "first_index P [] = 0"
  by (simp add: first_index_def)

lemma first_index_Cons [simp]:
  "first_index P (x # xs) = (if P x then 0 else Suc (first_index P xs))"
  by (simp add: first_index_def)

lemma first_index_le: "first_index P xs \<le> length xs"
  by (simp add: first_index_def length_takeWhile_le)

lemma first_index_sat: "first_index P xs < length xs \<Longrightarrow> P (xs ! first_index P xs)"
  by (induction xs) (auto split: if_splits)

lemma first_index_before: "i < first_index P xs \<Longrightarrow> \<not> P (xs ! i)"
  by (induction xs arbitrary: i) (auto simp: nth_Cons split: if_splits nat.splits)

lemma first_index_exists: "first_index P xs < length xs \<longleftrightarrow> (\<exists>x \<in> set xs. P x)"
  by (induction xs) auto

lemma find_SomeD: "List.find P xs = Some x \<Longrightarrow> x \<in> set xs \<and> P x"
  by (induction xs) (auto split: if_splits)

lemma bind_SomeE:
  assumes "Option.bind m f = Some y"
  obtains x where "m = Some x" and "f x = Some y"
  using assms by (cases m) auto

lemma ucast_32_64_32: "unat (key :: u64) < 2 ^ 32 \<Longrightarrow> ucast (ucast key :: u32) = key"
proof -
  assume "unat key < 2 ^ 32"
  then have "take_bit 32 key = key"
    by (intro iffD2 [OF word_unat_eq_iff]) (simp add: unsigned_take_bit_eq take_bit_nat_eq_self)
  moreover have "ucast (ucast key :: u32) = take_bit 32 key"
    by (rule bit_word_eqI) (auto simp: bit_simps)
  ultimately show ?thesis by simp
qed

lemma ucast_64_32 [simp]: "ucast (ucast (v :: u32) :: u64) = v"
  by (rule bit_word_eqI) (auto simp: bit_simps)

end
