(* ===== verification/Platform.thy ===== *)
theory Platform
  imports Prelude
begin

text \<open>
  What the platform layer of the repository stands on.

  The types and structs the sources declare or use: \<open>WAIT_SET\<close>, \<open>DARWIN_WAIT_SET\<close>,
  \<open>DARWIN_EVENT\<close>, \<open>DARWIN_THREAD\<close>, \<open>OFC_SOCKET_IMPL\<close>, \<open>struct pollfd\<close>.

  The world: the cells those structs live in (a map from addresses; an address that is not
  in the map is not allocated, so reading it is undefined behaviour), the pipes and
  descriptors of the process, and the list of the other system calls made so far. System
  calls whose effect the code only observes by their result are recorded in \<open>calls\<close> and
  answered by a kernel, a function of the history and of the call.

  The services of the library of_core, whose sources are not part of the repository, are
  the fields of the record \<open>core_api\<close>, an argument of every definition that uses them;
  \<open>'h\<close> is the type of that library's own state. \<open>handle_laws\<close> names what the code relies on.
\<close>

section \<open>Handles\<close>

datatype handle = OFC_HANDLE_NULL | Handle nat

datatype handle_type =
    OFC_HANDLE_WAIT_SET | OFC_HANDLE_SCHED | OFC_HANDLE_APP | OFC_HANDLE_THREAD
  | OFC_HANDLE_PIPE | OFC_HANDLE_MAILSLOT | OFC_HANDLE_FSWIN32_FILE
  | OFC_HANDLE_FSDARWIN_FILE | OFC_HANDLE_QUEUE | OFC_HANDLE_WAIT_QUEUE
  | OFC_HANDLE_FILE | OFC_HANDLE_SOCKET | OFC_HANDLE_FSDARWIN_OVERLAPPED
  | OFC_HANDLE_FSSMB_OVERLAPPED | OFC_HANDLE_EVENT | OFC_HANDLE_TIMER
  | OFC_HANDLE_SOCKET_IMPL | OFC_HANDLE_PROCESS | OFC_HANDLE_OTHER nat

text \<open>
  \<open>OFC_EVENT_MANUAL\<close> stands for every event type other than \<open>OFC_EVENT_AUTO\<close>, the only
  one the sources test for; likewise \<open>OFC_FST_OTHER\<close> for file systems.
\<close>

datatype event_type = OFC_EVENT_AUTO | OFC_EVENT_MANUAL

datatype fs_type = OFC_FST_DARWIN | OFC_FST_OTHER

datatype detachstate = OFC_THREAD_DETACH | OFC_THREAD_JOIN | OFC_THREAD_OTHER

datatype family = OFC_FAMILY_IP | OFC_FAMILY_IPV6 | OFC_FAMILY_OTHER

section \<open>Structs\<close>

record DARWIN_EVENT =
  eventType :: event_type
  signalled :: bool
  mutex_held :: bool \<comment> \<open>the state of \<open>pthread_mutex\<close>\<close>

record WAIT_SET =
  impl :: "addr option"
  hHandleQueue :: handle

record DARWIN_WAIT_SET =
  pipe_rd :: int \<comment> \<open>\<open>pipe_files[0]\<close>\<close>
  pipe_wr :: int \<comment> \<open>\<open>pipe_files[1]\<close>\<close>

record EVENT_ELEMENT =
  hEvent :: handle
  hAssoc :: handle

record pollfd =
  fd :: int
  events :: u16
  revents :: u16

record OFC_IPADDR =
  ip_version :: family
  ipv4_addr :: u32
  s6_addr :: "u8 list"
  scope :: u32

record OFC_SOCKET_IMPL =
  sk_socket :: int
  sk_family :: family
  sk_events :: u16
  sk_revents :: u16
  sk_ip :: OFC_IPADDR

record DARWIN_THREAD =
  th_thread :: nat
  th_scheduler :: nat
  th_context :: nat
  th_ret :: u32
  deleteMe :: bool
  th_handle :: handle
  th_detachstate :: detachstate
  th_wait_set :: handle
  hNotify :: handle

section \<open>The world\<close>

text \<open>
  A pipe of the kernel carries whole handles: every write to it is one
  \<open>sizeof(OFC_HANDLE)\<close> block, below \<open>PIPE_BUF\<close> and so atomic, and every read asks for one.
  A descriptor is an end of a pipe with its \<open>O_NONBLOCK\<close> flag.
\<close>

datatype pipe_end = Read_End | Write_End

record kfd =
  fd_end :: pipe_end
  fd_pipe :: nat
  o_nonblock :: bool

record kpipe =
  pbuf :: "handle list"
  pcap :: nat

datatype sockopt = SO_BROADCAST | SO_NOSIGPIPE | SO_REUSEPORT | SO_SNDBUF | SO_RCVBUF

datatype call =
    Sys_socket int int int
  | Sys_setsockopt int sockopt int
  | Sys_close int
  | Sys_bind int "u8 list"
  | Sys_connect int "u8 list"
  | Sys_listen int int
  | Sys_accept int
  | Sys_getpeername int
  | Sys_getsockname int
  | Sys_fcntl_getfl int
  | Sys_fcntl_setfl int int
  | Sys_send int "u8 list" u64
  | Sys_sendto int "u8 list" u64 "u8 list"
  | Sys_recv int u64
  | Sys_recvfrom int u64
  | Pthread_create nat detachstate
  | Pthread_join nat
  | Pthread_detach nat
  | Pthread_cancel nat
  | Sys_kill int int
  | Ofc_log string "int list"

text \<open>A kernel answers with a return value, \<open>errno\<close>, and the bytes it stores.\<close>

record reply =
  r_ret :: int
  r_errno :: int
  r_bytes :: "u8 list"

type_synonym kernel = "call list \<Rightarrow> call \<Rightarrow> reply"

record 'h world =
  core :: 'h
  ev_cells :: "addr \<rightharpoonup> DARWIN_EVENT"
  ws_cells :: "addr \<rightharpoonup> WAIT_SET"
  dws_cells :: "addr \<rightharpoonup> DARWIN_WAIT_SET"
  sk_cells :: "addr \<rightharpoonup> OFC_SOCKET_IMPL"
  th_cells :: "addr \<rightharpoonup> DARWIN_THREAD"
  fds :: "int \<rightharpoonup> kfd"
  pipes :: "nat \<rightharpoonup> kpipe"
  calls :: "call list"

definition syscall :: "kernel \<Rightarrow> call \<Rightarrow> 'h world \<Rightarrow> reply \<times> 'h world" where
  "syscall K c w = (K (calls w) c, w\<lparr>calls := calls w @ [c]\<rparr>)"

text \<open>
  \<open>read\<close> of one handle: \<open>Some (Some h, _)\<close> when \<open>sizeof(OFC_HANDLE)\<close> bytes were read,
  \<open>Some (None, _)\<close> when it returned 0 or -1 (empty non-blocking pipe, bad descriptor),
  \<open>None\<close> when it blocks.
\<close>

definition read_handle :: "int \<Rightarrow> 'h world \<Rightarrow> (handle option \<times> 'h world) option" where
  "read_handle f w =
     (case fds w f of
        None \<Rightarrow> Some (None, w)
      | Some d \<Rightarrow>
          (if fd_end d = Write_End then Some (None, w)
           else case pipes w (fd_pipe d) of
                  None \<Rightarrow> Some (None, w)
                | Some p \<Rightarrow>
                    (case pbuf p of
                       [] \<Rightarrow> if o_nonblock d then Some (None, w) else None
                     | h # hs \<Rightarrow>
                         Some (Some h, w\<lparr>pipes := (pipes w)(fd_pipe d \<mapsto> p\<lparr>pbuf := hs\<rparr>)\<rparr>))))"

text \<open>\<open>write\<close> of one handle; a full non-blocking pipe takes nothing and reports \<open>EAGAIN\<close>.\<close>

definition write_handle :: "int \<Rightarrow> handle \<Rightarrow> 'h world \<Rightarrow> 'h world option" where
  "write_handle f h w =
     (case fds w f of
        None \<Rightarrow> Some w
      | Some d \<Rightarrow>
          (if fd_end d = Read_End then Some w
           else case pipes w (fd_pipe d) of
                  None \<Rightarrow> Some w
                | Some p \<Rightarrow>
                    (if length (pbuf p) < pcap p
                     then Some (w\<lparr>pipes := (pipes w)(fd_pipe d \<mapsto> p\<lparr>pbuf := pbuf p @ [h]\<rparr>)\<rparr>)
                     else if o_nonblock d then Some w else None)))"

section \<open>The services of of_core\<close>

record 'h core_api =
  ofc_handle_create :: "handle_type \<Rightarrow> addr \<Rightarrow> 'h \<Rightarrow> handle \<times> 'h"
  ofc_handle_lock :: "handle \<Rightarrow> 'h \<Rightarrow> addr option \<times> 'h"
  ofc_handle_unlock :: "handle \<Rightarrow> 'h \<Rightarrow> 'h"
  ofc_handle_destroy :: "handle \<Rightarrow> 'h \<Rightarrow> 'h"
  ofc_handle_get_type :: "handle \<Rightarrow> 'h \<Rightarrow> handle_type"
  ofc_handle_get_wait_set :: "handle \<Rightarrow> 'h \<Rightarrow> handle"
  ofc_handle_set_app :: "handle \<Rightarrow> handle \<Rightarrow> handle \<Rightarrow> 'h \<Rightarrow> 'h"
  ofc_queue_walk :: "handle \<Rightarrow> 'h \<Rightarrow> handle list" \<comment> \<open>what \<open>ofc_queue_first\<close>/\<open>ofc_queue_next\<close> visit\<close>
  ofc_waitq_get_event_handle :: "handle \<Rightarrow> 'h \<Rightarrow> handle"
  ofc_waitq_empty :: "handle \<Rightarrow> 'h \<Rightarrow> bool"
  ofc_timer_get_wait_time :: "handle \<Rightarrow> 'h \<Rightarrow> int"
  OfcFileGetFSType :: "handle \<Rightarrow> 'h \<Rightarrow> fs_type"
  OfcFileGetFSHandle :: "handle \<Rightarrow> 'h \<Rightarrow> handle"
  OfcFileGetOverlappedWaitQ :: "handle \<Rightarrow> 'h \<Rightarrow> handle"
  OfcFileGetOverlappedEvent :: "handle \<Rightarrow> 'h \<Rightarrow> handle"
  OfcFSDarwinGetFD :: "handle \<Rightarrow> 'h \<Rightarrow> int"
  OfcFSDarwinGetOverlappedEvent :: "handle \<Rightarrow> 'h \<Rightarrow> handle"
  ofc_socket_get_impl :: "handle \<Rightarrow> 'h \<Rightarrow> handle"
  OFC_MAX_SCHED_WAIT :: int
  OFC_FS_DARWIN :: bool \<comment> \<open>the build option of that name\<close>

text \<open>\<open>deref\<close> is what locking a handle yields: the address of its object, or nothing.\<close>

definition deref :: "'h core_api \<Rightarrow> handle \<Rightarrow> 'h \<Rightarrow> addr option" where
  "deref C h s = fst (ofc_handle_lock C h s)"

definition lock_h :: "'h core_api \<Rightarrow> handle \<Rightarrow> 'h world \<Rightarrow> addr option \<times> 'h world" where
  "lock_h C h w = (let (p, s) = ofc_handle_lock C h (core w) in (p, w\<lparr>core := s\<rparr>))"

definition unlock_h :: "'h core_api \<Rightarrow> handle \<Rightarrow> 'h world \<Rightarrow> 'h world" where
  "unlock_h C h w = w\<lparr>core := ofc_handle_unlock C h (core w)\<rparr>"

definition destroy_h :: "'h core_api \<Rightarrow> handle \<Rightarrow> 'h world \<Rightarrow> 'h world" where
  "destroy_h C h w = w\<lparr>core := ofc_handle_destroy C h (core w)\<rparr>"

text \<open>
  What the code relies on. A handle is locked by counting references, so a lock that fails
  changes nothing, unlocking undoes the lock, and holding a lock changes no answer of the
  library (\<open>core_reads\<close> lists them); two handles never name the same object, the null handle
  names none, and a queue walk ends at the null handle. Associating a handle with an
  application and a wait set changes the wait set of that handle only.
\<close>

definition core_reads :: "'h core_api \<Rightarrow> 'h \<Rightarrow>
  (handle \<Rightarrow> addr option) \<times> (handle \<Rightarrow> handle_type) \<times> (handle \<Rightarrow> handle list) \<times>
  (handle \<Rightarrow> handle) \<times> (handle \<Rightarrow> bool) \<times> (handle \<Rightarrow> int) \<times> (handle \<Rightarrow> fs_type) \<times>
  (handle \<Rightarrow> handle) \<times> (handle \<Rightarrow> handle) \<times> (handle \<Rightarrow> handle) \<times> (handle \<Rightarrow> int) \<times>
  (handle \<Rightarrow> handle) \<times> (handle \<Rightarrow> handle)" where
  "core_reads C s =
     (\<lambda>h. deref C h s, \<lambda>h. ofc_handle_get_type C h s, \<lambda>h. ofc_queue_walk C h s,
      \<lambda>h. ofc_waitq_get_event_handle C h s, \<lambda>h. ofc_waitq_empty C h s,
      \<lambda>h. ofc_timer_get_wait_time C h s, \<lambda>h. OfcFileGetFSType C h s,
      \<lambda>h. OfcFileGetFSHandle C h s, \<lambda>h. OfcFileGetOverlappedWaitQ C h s,
      \<lambda>h. OfcFileGetOverlappedEvent C h s, \<lambda>h. OfcFSDarwinGetFD C h s,
      \<lambda>h. OfcFSDarwinGetOverlappedEvent C h s, \<lambda>h. ofc_socket_get_impl C h s)"

definition handle_laws :: "'h core_api \<Rightarrow> bool" where
  "handle_laws C \<longleftrightarrow>
     (\<forall>h s. deref C h s = None \<longrightarrow> snd (ofc_handle_lock C h s) = s) \<and>
     (\<forall>h s. deref C h s \<noteq> None \<longrightarrow> ofc_handle_unlock C h (snd (ofc_handle_lock C h s)) = s) \<and>
     (\<forall>h s. core_reads C (snd (ofc_handle_lock C h s)) = core_reads C s) \<and>
     (\<forall>h h' s. ofc_handle_get_wait_set C h' (snd (ofc_handle_lock C h s)) =
               ofc_handle_get_wait_set C h' s) \<and>
     (\<forall>h h' s a. deref C h s = Some a \<longrightarrow> deref C h' s = Some a \<longrightarrow> h = h') \<and>
     (\<forall>s. deref C OFC_HANDLE_NULL s = None) \<and>
     (\<forall>q s. OFC_HANDLE_NULL \<notin> set (ofc_queue_walk C q s)) \<and>
     (\<forall>h a ws s. core_reads C (ofc_handle_set_app C h a ws s) = core_reads C s) \<and>
     (\<forall>h h' a ws s. deref C h s \<noteq> None \<longrightarrow>
        ofc_handle_get_wait_set C h' (ofc_handle_set_app C h a ws s) =
        (if h' = h then ws else ofc_handle_get_wait_set C h' s))"

lemma handle_lawsD:
  assumes "handle_laws C"
  shows "deref C h s = None \<Longrightarrow> snd (ofc_handle_lock C h s) = s"
    and "deref C h s = Some a \<Longrightarrow> ofc_handle_unlock C h (snd (ofc_handle_lock C h s)) = s"
    and "core_reads C (snd (ofc_handle_lock C h s)) = core_reads C s"
    and "ofc_handle_get_wait_set C h' (snd (ofc_handle_lock C h s)) = ofc_handle_get_wait_set C h' s"
    and "deref C h s = Some a \<Longrightarrow> deref C h' s = Some a \<Longrightarrow> h = h'"
    and "deref C OFC_HANDLE_NULL s = None"
    and "OFC_HANDLE_NULL \<notin> set (ofc_queue_walk C q s)"
    and "core_reads C (ofc_handle_set_app C h b ws s) = core_reads C s"
    and "deref C h s \<noteq> None \<Longrightarrow> ofc_handle_get_wait_set C h' (ofc_handle_set_app C h b ws s) =
        (if h' = h then ws else ofc_handle_get_wait_set C h' s)"
  using assms unfolding handle_laws_def by - (blast | meson | force)+

lemma core_reads_eqD:
  assumes "core_reads C s' = core_reads C s"
  shows "deref C h s' = deref C h s"
    and "ofc_handle_get_type C h s' = ofc_handle_get_type C h s"
    and "ofc_queue_walk C h s' = ofc_queue_walk C h s"
    and "ofc_waitq_get_event_handle C h s' = ofc_waitq_get_event_handle C h s"
    and "ofc_waitq_empty C h s' = ofc_waitq_empty C h s"
    and "ofc_timer_get_wait_time C h s' = ofc_timer_get_wait_time C h s"
    and "OfcFileGetFSType C h s' = OfcFileGetFSType C h s"
    and "OfcFileGetFSHandle C h s' = OfcFileGetFSHandle C h s"
    and "OfcFileGetOverlappedWaitQ C h s' = OfcFileGetOverlappedWaitQ C h s"
    and "OfcFileGetOverlappedEvent C h s' = OfcFileGetOverlappedEvent C h s"
    and "OfcFSDarwinGetFD C h s' = OfcFSDarwinGetFD C h s"
    and "OfcFSDarwinGetOverlappedEvent C h s' = OfcFSDarwinGetOverlappedEvent C h s"
    and "ofc_socket_get_impl C h s' = ofc_socket_get_impl C h s"
  using assms by (simp_all add: core_reads_def fun_eq_iff)

lemma lock_h_eq:
  "lock_h C h w = (deref C h (core w), w\<lparr>core := snd (ofc_handle_lock C h (core w))\<rparr>)"
  by (simp add: lock_h_def deref_def split_beta)

lemma lock_h_None:
  "handle_laws C \<Longrightarrow> deref C h (core w) = None \<Longrightarrow> lock_h C h w = (None, w)"
  by (simp add: lock_h_eq handle_lawsD(1))

text \<open>Between a lock and its unlock the cells, pipes and descriptors may change freely.\<close>

lemma unlock_after_lock:
  "handle_laws C \<Longrightarrow> deref C h (core w) = Some a \<Longrightarrow>
   ofc_handle_unlock C h (snd (ofc_handle_lock C h (core w))) = core w"
  by (rule handle_lawsD(2))

text \<open>
  Creating a handle for an object no handle names yet gives a fresh handle that is in no wait
  set; destroying a locked handle and unlocking it makes it dead. Neither touches other handles.
  Unlocking a handle after another one was created in its scope leaves what every handle names.
\<close>

definition lifecycle_laws :: "'h core_api \<Rightarrow> bool" where
  "lifecycle_laws C \<longleftrightarrow>
     (\<forall>t a s h s'. ofc_handle_create C t a s = (h, s') \<longrightarrow> (\<forall>g. deref C g s \<noteq> Some a) \<longrightarrow>
        h \<noteq> OFC_HANDLE_NULL \<and> deref C h s = None \<and> deref C h s' = Some a \<and>
        ofc_handle_get_wait_set C h s' = OFC_HANDLE_NULL \<and>
        (\<forall>g. g \<noteq> h \<longrightarrow> deref C g s' = deref C g s)) \<and>
     (\<forall>h s. deref C h s \<noteq> None \<longrightarrow>
        (\<forall>g. deref C g (ofc_handle_unlock C h (ofc_handle_destroy C h (snd (ofc_handle_lock C h s)))) =
             (if g = h then None else deref C g s))) \<and>
     (\<forall>h s. deref C h s \<noteq> None \<longrightarrow>
        (\<forall>g. deref C g (ofc_handle_destroy C h s) = (if g = h then None else deref C g s))) \<and>
     (\<forall>h s t a k s'. deref C h s \<noteq> None \<longrightarrow> (\<forall>g. deref C g s \<noteq> Some a) \<longrightarrow>
        ofc_handle_create C t a (snd (ofc_handle_lock C h s)) = (k, s') \<longrightarrow>
        (\<forall>g. deref C g (ofc_handle_unlock C h s') = deref C g s'))"

lemma lifecycle_lawsD:
  assumes "lifecycle_laws C"
  shows "ofc_handle_create C t a s = (h, s') \<Longrightarrow> \<forall>g. deref C g s \<noteq> Some a \<Longrightarrow>
      h \<noteq> OFC_HANDLE_NULL \<and> deref C h s = None \<and> deref C h s' = Some a \<and>
      ofc_handle_get_wait_set C h s' = OFC_HANDLE_NULL \<and>
      (\<forall>g. g \<noteq> h \<longrightarrow> deref C g s' = deref C g s)"
    and "deref C h s \<noteq> None \<Longrightarrow>
      deref C g (ofc_handle_unlock C h (ofc_handle_destroy C h (snd (ofc_handle_lock C h s)))) =
      (if g = h then None else deref C g s)"
    and "deref C h s \<noteq> None \<Longrightarrow>
      deref C g (ofc_handle_destroy C h s) = (if g = h then None else deref C g s)"
    and "deref C h s \<noteq> None \<Longrightarrow> \<forall>g. deref C g s \<noteq> Some a \<Longrightarrow>
      ofc_handle_create C t a (snd (ofc_handle_lock C h s)) = (h', s') \<Longrightarrow>
      deref C g (ofc_handle_unlock C h s') = deref C g s'"
  using assms unfolding lifecycle_laws_def by - (blast | meson)+

end
