(* ===== verification/Signal_Darwin.thy ===== *)
theory Signal_Darwin
  imports Platform
begin

text \<open>
  The notification pipe of a wait set (\<open>src/waitset_darwin.c\<close>): creating and destroying the
  pipe, \<open>ofc_waitset_signal_impl\<close> and \<open>ofc_waitset_wake_impl\<close>, and the loop that drains it.

  Contract: a live wait set is a bounded queue of pending notifications. The locale
  \<open>notifier\<close> states it; the pipe operations of the code provide it.
\<close>

section \<open>The operations\<close>

text \<open>What \<open>pipe()\<close> answers: the two descriptors, the kernel's pipe and its capacity.\<close>

record pipe_answer =
  pa_rd :: int
  pa_wr :: int
  pa_pipe :: nat
  pa_cap :: nat

definition sys_pipe :: "pipe_answer \<Rightarrow> 'h world \<Rightarrow> 'h world" where
  "sys_pipe a w =
     w\<lparr>fds := (fds w)
          (pa_rd a \<mapsto> \<lparr>fd_end = Read_End, fd_pipe = pa_pipe a, o_nonblock = False\<rparr>,
           pa_wr a \<mapsto> \<lparr>fd_end = Write_End, fd_pipe = pa_pipe a, o_nonblock = False\<rparr>),
       pipes := (pipes w)(pa_pipe a \<mapsto> \<lparr>pbuf = [], pcap = pa_cap a\<rparr>)\<rparr>"

text \<open>\<open>fcntl(f, F_SETFL, fcntl(f, F_GETFL) | O_NONBLOCK)\<close>.\<close>

definition set_nonblock :: "int \<Rightarrow> 'h world \<Rightarrow> 'h world" where
  "set_nonblock f w =
     (case fds w f of None \<Rightarrow> w | Some d \<Rightarrow> w\<lparr>fds := (fds w)(f \<mapsto> d\<lparr>o_nonblock := True\<rparr>)\<rparr>)"

definition close_fd :: "int \<Rightarrow> 'h world \<Rightarrow> 'h world" where
  "close_fd f w = w\<lparr>fds := (fds w)(f := None)\<rparr>"

text \<open>
  \<open>m\<close> is what \<open>ofc_malloc\<close> returned, \<open>ans\<close> what \<open>pipe\<close> answered (\<open>None\<close>: it failed) and
  \<open>g\<close> the bytes the new cell held before, which stay when \<open>pipe\<close> fails.
\<close>

definition ofc_waitset_create_impl ::
  "addr \<Rightarrow> addr option \<Rightarrow> pipe_answer option \<Rightarrow> DARWIN_WAIT_SET \<Rightarrow> 'h world \<Rightarrow> 'h world option" where
  "ofc_waitset_create_impl pWaitSet m ans g w = do {
     ws \<leftarrow> ws_cells w pWaitSet;
     d \<leftarrow> m;
     let w = w\<lparr>ws_cells := (ws_cells w)(pWaitSet \<mapsto> ws\<lparr>impl := Some d\<rparr>)\<rparr>;
     let (D, w) = (case ans of
                     None \<Rightarrow> (g, w)
                   | Some a \<Rightarrow> (\<lparr>pipe_rd = pa_rd a, pipe_wr = pa_wr a\<rparr>, sys_pipe a w));
     let w = w\<lparr>dws_cells := (dws_cells w)(d \<mapsto> D)\<rparr>;
     let w = set_nonblock (pipe_rd D) w;
     Some (set_nonblock (pipe_wr D) w)
   }"

definition ofc_waitset_destroy_impl :: "addr \<Rightarrow> 'h world \<Rightarrow> 'h world option" where
  "ofc_waitset_destroy_impl pWaitSet w = do {
     ws \<leftarrow> ws_cells w pWaitSet;
     d \<leftarrow> impl ws;
     D \<leftarrow> dws_cells w d;
     let w = close_fd (pipe_rd D) w;
     let w = close_fd (pipe_wr D) w;
     let w = w\<lparr>dws_cells := (dws_cells w)(d := None)\<rparr>;
     Some (w\<lparr>ws_cells := (ws_cells w)(pWaitSet \<mapsto> ws\<lparr>impl := None\<rparr>)\<rparr>)
   }"

definition ofc_waitset_signal_impl ::
  "'h core_api \<Rightarrow> handle \<Rightarrow> handle \<Rightarrow> 'h world \<Rightarrow> 'h world option" where
  "ofc_waitset_signal_impl C h ev w =
     (case lock_h C h w of
        (None, w) \<Rightarrow> Some w
      | (Some a, w) \<Rightarrow> do {
          ws \<leftarrow> ws_cells w a;
          let w = unlock_h C h w;
          d \<leftarrow> impl ws;
          D \<leftarrow> dws_cells w d;
          write_handle (pipe_wr D) ev w
        })"

definition ofc_waitset_wake_impl :: "'h core_api \<Rightarrow> handle \<Rightarrow> 'h world \<Rightarrow> 'h world option" where
  "ofc_waitset_wake_impl C h w = ofc_waitset_signal_impl C h OFC_HANDLE_NULL w"

text \<open>\<open>while (read(fd, &h, sizeof(OFC_HANDLE)) > 0);\<close> for any way of taking one element.\<close>

partial_function (option) drain ::
  "('s \<Rightarrow> ('e option \<times> 's) option) \<Rightarrow> 's \<Rightarrow> 's option" where
  "drain take_one s =
     (case take_one s of
        None \<Rightarrow> None
      | Some r \<Rightarrow> (case fst r of None \<Rightarrow> Some (snd r) | Some e \<Rightarrow> drain take_one (snd r)))"

definition purge_pipe :: "int \<Rightarrow> 'h world \<Rightarrow> 'h world option" where
  "purge_pipe f w = drain (read_handle f) w"

section \<open>The abstract view\<close>

text \<open>
  The chain handle, \<open>WAIT_SET\<close>, \<open>DARWIN_WAIT_SET\<close>, descriptors, pipe. \<open>ws_pipe\<close> is the pipe
  when every link is there and both ends are non-blocking.
\<close>

definition ws_impl :: "'h core_api \<Rightarrow> handle \<Rightarrow> 'h world \<Rightarrow> DARWIN_WAIT_SET option" where
  "ws_impl C h w = do {
     a \<leftarrow> deref C h (core w);
     ws \<leftarrow> ws_cells w a;
     d \<leftarrow> impl ws;
     dws_cells w d
   }"

definition nb_pipe :: "DARWIN_WAIT_SET \<Rightarrow> 'h world \<Rightarrow> nat option" where
  "nb_pipe D w = do {
     r \<leftarrow> fds w (pipe_rd D);
     s \<leftarrow> fds w (pipe_wr D);
     p \<leftarrow> pipes w (fd_pipe r);
     if r = \<lparr>fd_end = Read_End, fd_pipe = fd_pipe r, o_nonblock = True\<rparr> \<and>
        s = \<lparr>fd_end = Write_End, fd_pipe = fd_pipe r, o_nonblock = True\<rparr> \<and> 0 < pcap p
     then Some (fd_pipe r) else None
   }"

definition ws_pipe :: "'h core_api \<Rightarrow> handle \<Rightarrow> 'h world \<Rightarrow> nat option" where
  "ws_pipe C h w = Option.bind (ws_impl C h w) (\<lambda>D. nb_pipe D w)"

definition pipe_items :: "nat option \<Rightarrow> 'h world \<Rightarrow> handle list" where
  "pipe_items k w = (case Option.bind k (pipes w) of None \<Rightarrow> [] | Some p \<Rightarrow> pbuf p)"

definition pending :: "'h core_api \<Rightarrow> handle \<Rightarrow> 'h world \<Rightarrow> handle list" where
  "pending C h w = pipe_items (ws_pipe C h w) w"

definition ws_capacity :: "'h core_api \<Rightarrow> handle \<Rightarrow> 'h world \<Rightarrow> nat" where
  "ws_capacity C h w = (case Option.bind (ws_pipe C h w) (pipes w) of None \<Rightarrow> 0 | Some p \<Rightarrow> pcap p)"

section \<open>The contract\<close>

locale notifier =
  fixes notify :: "'e \<Rightarrow> 's \<Rightarrow> 's option"
    and take_one :: "'s \<Rightarrow> ('e option \<times> 's) option"
    and items :: "'s \<Rightarrow> 'e list"
    and capacity :: "'s \<Rightarrow> nat"
    and ok :: "'s \<Rightarrow> bool"
  assumes capacity_pos: "ok s \<Longrightarrow> 0 < capacity s"
    and notify_law: "ok s \<Longrightarrow> \<exists>s'. notify e s = Some s' \<and> ok s' \<and> capacity s' = capacity s \<and>
           items s' = (if length (items s) < capacity s then items s @ [e] else items s)"
    and take_empty: "ok s \<Longrightarrow> items s = [] \<Longrightarrow> take_one s = Some (None, s)"
    and take_head: "ok s \<Longrightarrow> items s = e # es \<Longrightarrow>
           \<exists>s'. take_one s = Some (Some e, s') \<and> ok s' \<and> capacity s' = capacity s \<and> items s' = es"
begin

text \<open>Whatever was pending, after a notification something is: no wake-up is lost to a full pipe.\<close>

lemma notify_leaves_pending:
  assumes "ok s" and "notify e s = Some s'"
  shows "items s' \<noteq> []"
  using notify_law [OF assms(1), of e] capacity_pos [OF assms(1)] assms(2) by (auto split: if_splits)

lemma notify_onto_empty:
  assumes "ok s" and "items s = []"
  obtains s' where "notify e s = Some s'" and "ok s'" and "items s' = [e]"
  using notify_law [OF assms(1), of e] capacity_pos [OF assms(1)] assms(2) by auto

lemma drain_empties:
  assumes "ok s"
  shows "\<exists>s'. drain take_one s = Some s' \<and> ok s' \<and> items s' = [] \<and> capacity s' = capacity s"
  using assms
proof (induction "items s" arbitrary: s)
  case Nil
  then show ?case by (auto simp: drain.simps [of take_one s] take_empty)
next
  case (Cons e es)
  from take_head [OF Cons.prems Cons.hyps(2) [symmetric]] obtain s1 where
    s1: "take_one s = Some (Some e, s1)" "ok s1" "capacity s1 = capacity s" "items s1 = es"
    by blast
  with Cons.hyps(1) [of s1] show ?case by (auto simp: drain.simps [of take_one s])
qed

end

section \<open>The pipe provides the contract\<close>

lemma nb_pipe_Some:
  "nb_pipe D w = Some k \<longleftrightarrow>
   (\<exists>p. fds w (pipe_rd D) = Some \<lparr>fd_end = Read_End, fd_pipe = k, o_nonblock = True\<rparr> \<and>
        fds w (pipe_wr D) = Some \<lparr>fd_end = Write_End, fd_pipe = k, o_nonblock = True\<rparr> \<and>
        pipes w k = Some p \<and> 0 < pcap p)"
  by (auto simp: nb_pipe_def split: Option.bind_splits if_splits)

lemma nb_pipe_cong:
  "fds w' = fds w \<Longrightarrow> pipes w' = pipes w \<Longrightarrow> nb_pipe D w' = nb_pipe D w"
  by (simp add: nb_pipe_def)

lemma nb_pipe_update [simp]:
  "nb_pipe D w = Some k \<Longrightarrow> 0 < pcap p \<Longrightarrow> nb_pipe D (w\<lparr>pipes := (pipes w)(k \<mapsto> p)\<rparr>) = Some k"
  by (auto simp: nb_pipe_Some)

lemma ws_impl_pipes [simp]: "ws_impl C h (w\<lparr>pipes := q\<rparr>) = ws_impl C h w"
  by (simp add: ws_impl_def)

lemma read_nb_pipe:
  assumes "nb_pipe D w = Some k" and "pipes w k = Some p"
  shows "read_handle (pipe_rd D) w =
     (case pbuf p of [] \<Rightarrow> Some (None, w)
      | h # hs \<Rightarrow> Some (Some h, w\<lparr>pipes := (pipes w)(k \<mapsto> p\<lparr>pbuf := hs\<rparr>)\<rparr>))"
  using assms by (auto simp: nb_pipe_Some read_handle_def split: list.splits)

lemma write_nb_pipe:
  assumes "nb_pipe D w = Some k" and "pipes w k = Some p"
  shows "write_handle (pipe_wr D) h w =
     Some (if length (pbuf p) < pcap p
           then w\<lparr>pipes := (pipes w)(k \<mapsto> p\<lparr>pbuf := pbuf p @ [h]\<rparr>)\<rparr> else w)"
  using assms by (auto simp: nb_pipe_Some write_handle_def)

lemma nb_pipe_pipe: "nb_pipe D w = Some k \<Longrightarrow> \<exists>p. pipes w k = Some p \<and> 0 < pcap p"
  by (auto simp: nb_pipe_Some)

lemma ws_pipe_implE:
  assumes "ws_pipe C h w = Some k"
  obtains a ws d D p where "deref C h (core w) = Some a" and "ws_cells w a = Some ws"
    and "impl ws = Some d" and "dws_cells w d = Some D" and "ws_impl C h w = Some D"
    and "nb_pipe D w = Some k" and "pipes w k = Some p" and "0 < pcap p"
    and "ws_pipe C h w = Some k"
proof -
  from assms obtain D where D: "ws_impl C h w = Some D" "nb_pipe D w = Some k"
    unfolding ws_pipe_def by (auto elim!: bind_SomeE)
  from D(1) obtain a ws d where "deref C h (core w) = Some a" "ws_cells w a = Some ws"
    "impl ws = Some d" "dws_cells w d = Some D"
    unfolding ws_impl_def by (auto elim!: bind_SomeE)
  with D nb_pipe_pipe [OF D(2)] assms that show thesis by blast
qed

lemma ws_pipe_live: "ws_pipe C h w = Some k \<Longrightarrow> deref C h (core w) \<noteq> None"
  by (auto simp: ws_pipe_def ws_impl_def elim!: bind_SomeE)

lemma signal_eq:
  assumes "handle_laws C" and "ws_pipe C h w = Some k" and "pipes w k = Some p"
  shows "ofc_waitset_signal_impl C h e w =
     Some (if length (pbuf p) < pcap p
           then w\<lparr>pipes := (pipes w)(k \<mapsto> p\<lparr>pbuf := pbuf p @ [e]\<rparr>)\<rparr> else w)"
proof -
  from assms(2) obtain a ws d D where c: "deref C h (core w) = Some a" "ws_cells w a = Some ws"
    "impl ws = Some d" "dws_cells w d = Some D" "nb_pipe D w = Some k"
    by (rule ws_pipe_implE)
  then show ?thesis
    by (simp add: ofc_waitset_signal_impl_def lock_h_eq unlock_h_def
        unlock_after_lock [OF assms(1) c(1)] write_nb_pipe [OF c(5) assms(3)])
qed

lemma signal_invalid:
  "handle_laws C \<Longrightarrow> deref C h (core w) = None \<Longrightarrow> ofc_waitset_signal_impl C h e w = Some w"
  by (simp add: ofc_waitset_signal_impl_def lock_h_None)

lemma pending_pipe:
  "ws_pipe C h w = Some k \<Longrightarrow> pipes w k = Some p \<Longrightarrow> pending C h w = pbuf p"
  by (simp add: pending_def pipe_items_def)

lemma ws_capacity_pipe:
  "ws_pipe C h w = Some k \<Longrightarrow> pipes w k = Some p \<Longrightarrow> ws_capacity C h w = pcap p"
  by (simp add: ws_capacity_def)

text \<open>Changing the contents of a wait set's pipe keeps the chain that leads to it.\<close>

lemma ws_pipe_update:
  assumes "ws_pipe C h w = Some k" and "0 < pcap p"
  shows "ws_pipe C h (w\<lparr>pipes := (pipes w)(k \<mapsto> p)\<rparr>) = Some k"
  using assms by (auto simp: ws_pipe_def elim!: bind_SomeE)

interpretation ws_queue: notifier "ofc_waitset_signal_impl C h"
  "\<lambda>w. case ws_impl C h w of None \<Rightarrow> None | Some D \<Rightarrow> read_handle (pipe_rd D) w"
  "pending C h" "ws_capacity C h" "\<lambda>w. handle_laws C \<and> ws_pipe C h w \<noteq> None" for C h
proof (unfold_locales, goal_cases)
  case (1 s)
  then obtain k where "ws_pipe C h s = Some k" by blast
  then obtain p where "pipes s k = Some p" "0 < pcap p" by (rule ws_pipe_implE)
  with \<open>ws_pipe C h s = Some k\<close> show ?case by (simp add: ws_capacity_pipe)
next
  case (2 s e)
  then obtain k where k: "ws_pipe C h s = Some k" by blast
  then obtain p where p: "pipes s k = Some p" "0 < pcap p" by (rule ws_pipe_implE)
  let ?p = "p\<lparr>pbuf := pbuf p @ [e]\<rparr>"
  let ?s = "s\<lparr>pipes := (pipes s)(k \<mapsto> ?p)\<rparr>"
  have s: "ws_pipe C h ?s = Some k" "pipes ?s k = Some ?p"
    using ws_pipe_update [OF k, of ?p] p by simp_all
  have sig: "ofc_waitset_signal_impl C h e s = Some (if length (pbuf p) < pcap p then ?s else s)"
    using 2 k p by (simp add: signal_eq)
  show ?case
  proof (cases "length (pbuf p) < pcap p")
    case True
    with sig show ?thesis
      using 2 pending_pipe [OF k p(1)] pending_pipe [OF s]
        ws_capacity_pipe [OF k p(1)] ws_capacity_pipe [OF s] s(1) by simp
  next
    case False
    with sig show ?thesis
      using 2 pending_pipe [OF k p(1)] ws_capacity_pipe [OF k p(1)] by simp
  qed
next
  case (3 s)
  then obtain k where k: "ws_pipe C h s = Some k" by blast
  then obtain D p where "ws_impl C h s = Some D" "nb_pipe D s = Some k" "pipes s k = Some p"
    by (rule ws_pipe_implE)
  with 3 k show ?case by (simp add: pending_pipe read_nb_pipe)
next
  case (4 s e es)
  then obtain k where k: "ws_pipe C h s = Some k" by blast
  then obtain D p where p: "ws_impl C h s = Some D" "nb_pipe D s = Some k" "pipes s k = Some p"
    "0 < pcap p" by (rule ws_pipe_implE)
  let ?p = "p\<lparr>pbuf := es\<rparr>"
  let ?s = "s\<lparr>pipes := (pipes s)(k \<mapsto> ?p)\<rparr>"
  have s: "ws_pipe C h ?s = Some k" "pipes ?s k = Some ?p"
    using ws_pipe_update [OF k, of ?p] p by simp_all
  have "pbuf p = e # es" using 4 pending_pipe [OF k p(3)] by simp
  then have "read_handle (pipe_rd D) s = Some (Some e, ?s)" using p by (simp add: read_nb_pipe)
  with 4 p(1) show ?case
    using pending_pipe [OF s] ws_capacity_pipe [OF k p(3)] ws_capacity_pipe [OF s] s(1) by simp
qed

end
