(* ===== verification/Event_Darwin.thy ===== *)
theory Event_Darwin
  imports Signal_Darwin
begin

text \<open>
  Events (\<open>src/event_darwin.c\<close>), each operation as one thread runs it: the guard on the
  handle, the mutex, the flag, the notification of the wait set.  The interleaving of
  several threads inside these operations is the subject of the theory \<open>Event_Threads\<close>.

  Contract: an event is a flag that \<open>ofc_event_set_impl\<close> raises and \<open>ofc_event_reset_impl\<close>
  lowers. The locale \<open>event_ops\<close> states what the scheduler loop relies on when it tests,
  types and resets an event; the operations of this file provide it.
\<close>

section \<open>The mutex and the flag of an event cell\<close>

definition pthread_mutex_lock :: "addr \<Rightarrow> 'h world \<Rightarrow> 'h world option" where
  "pthread_mutex_lock a w = do {
     e \<leftarrow> ev_cells w a;
     if mutex_held e then None
     else Some (w\<lparr>ev_cells := (ev_cells w)(a \<mapsto> e\<lparr>mutex_held := True\<rparr>)\<rparr>)
   }"

definition pthread_mutex_unlock :: "addr \<Rightarrow> 'h world \<Rightarrow> 'h world option" where
  "pthread_mutex_unlock a w = do {
     e \<leftarrow> ev_cells w a;
     if mutex_held e then Some (w\<lparr>ev_cells := (ev_cells w)(a \<mapsto> e\<lparr>mutex_held := False\<rparr>)\<rparr>)
     else None
   }"

definition put_signalled :: "bool \<Rightarrow> addr \<Rightarrow> 'h world \<Rightarrow> 'h world option" where
  "put_signalled b a w = do {
     e \<leftarrow> ev_cells w a;
     Some (w\<lparr>ev_cells := (ev_cells w)(a \<mapsto> e\<lparr>signalled := b\<rparr>)\<rparr>)
   }"

text \<open>
  \<open>pthread_cond_wait\<close> releases the mutex, lets the other threads run (\<open>env\<close>, \<open>None\<close> if this
  thread is never woken) and takes the mutex again. The other threads may do nothing: that
  is the spurious wake-up POSIX allows.
\<close>

definition pthread_cond_wait ::
  "('h world \<Rightarrow> 'h world option) \<Rightarrow> addr \<Rightarrow> 'h world \<Rightarrow> 'h world option" where
  "pthread_cond_wait env a w = do {
     w \<leftarrow> pthread_mutex_unlock a w;
     w \<leftarrow> env w;
     pthread_mutex_lock a w
   }"

section \<open>The operations\<close>

definition ofc_event_create_impl ::
  "'h core_api \<Rightarrow> event_type \<Rightarrow> addr option \<Rightarrow> 'h world \<Rightarrow> handle \<times> 'h world" where
  "ofc_event_create_impl C t m w =
     (case m of
        None \<Rightarrow> (OFC_HANDLE_NULL, w)
      | Some a \<Rightarrow>
          let w = w\<lparr>ev_cells := (ev_cells w)
                      (a \<mapsto> \<lparr>eventType = t, signalled = False, mutex_held = False\<rparr>)\<rparr>;
              (h, s) = ofc_handle_create C OFC_HANDLE_EVENT a (core w)
          in (h, w\<lparr>core := s\<rparr>))"

definition ofc_event_set_impl :: "'h core_api \<Rightarrow> handle \<Rightarrow> 'h world \<Rightarrow> 'h world option" where
  "ofc_event_set_impl C h w =
     (case lock_h C h w of
        (None, w) \<Rightarrow> Some w
      | (Some a, w) \<Rightarrow> do {
          w \<leftarrow> pthread_mutex_lock a w;
          w \<leftarrow> put_signalled True a w;
          let hWaitSet = ofc_handle_get_wait_set C h (core w);
          let w = unlock_h C h w;
          w \<leftarrow> (if hWaitSet \<noteq> OFC_HANDLE_NULL then ofc_waitset_signal_impl C hWaitSet h w
                else Some w);
          pthread_mutex_unlock a w
        })"

definition ofc_event_reset_impl :: "'h core_api \<Rightarrow> handle \<Rightarrow> 'h world \<Rightarrow> 'h world option" where
  "ofc_event_reset_impl C h w =
     (case lock_h C h w of
        (None, w) \<Rightarrow> Some w
      | (Some a, w) \<Rightarrow> do {
          w \<leftarrow> pthread_mutex_lock a w;
          w \<leftarrow> put_signalled False a w;
          w \<leftarrow> pthread_mutex_unlock a w;
          Some (unlock_h C h w)
        })"

definition ofc_event_get_type_impl ::
  "'h core_api \<Rightarrow> handle \<Rightarrow> 'h world \<Rightarrow> (event_type \<times> 'h world) option" where
  "ofc_event_get_type_impl C h w =
     (case lock_h C h w of
        (None, w) \<Rightarrow> Some (OFC_EVENT_AUTO, w)
      | (Some a, w) \<Rightarrow> do {
          e \<leftarrow> ev_cells w a;
          Some (eventType e, unlock_h C h w)
        })"

text \<open>Destroying a mutex that is held is undefined.\<close>

definition ofc_event_destroy_impl :: "'h core_api \<Rightarrow> handle \<Rightarrow> 'h world \<Rightarrow> 'h world option" where
  "ofc_event_destroy_impl C h w =
     (case lock_h C h w of
        (None, w) \<Rightarrow> Some w
      | (Some a, w) \<Rightarrow> do {
          e \<leftarrow> ev_cells w a;
          w \<leftarrow> (if mutex_held e then None else Some (w\<lparr>ev_cells := (ev_cells w)(a := None)\<rparr>));
          let w = destroy_h C h w;
          Some (unlock_h C h w)
        })"

definition ofc_event_wait_impl ::
  "'h core_api \<Rightarrow> ('h world \<Rightarrow> 'h world option) \<Rightarrow> handle \<Rightarrow> 'h world \<Rightarrow> 'h world option" where
  "ofc_event_wait_impl C env h w =
     (case lock_h C h w of
        (None, w) \<Rightarrow> Some w
      | (Some a, w) \<Rightarrow> do {
          w \<leftarrow> pthread_mutex_lock a w;
          let w = unlock_h C h w;
          e \<leftarrow> ev_cells w a;
          w \<leftarrow> (if \<not> signalled e then pthread_cond_wait env a w else Some w);
          e \<leftarrow> ev_cells w a;
          w \<leftarrow> (if eventType e = OFC_EVENT_AUTO then put_signalled False a w else Some w);
          pthread_mutex_unlock a w
        })"

definition ofc_event_test_impl ::
  "'h core_api \<Rightarrow> handle \<Rightarrow> 'h world \<Rightarrow> (bool \<times> 'h world) option" where
  "ofc_event_test_impl C h w =
     (case lock_h C h w of
        (None, w) \<Rightarrow> Some (True, w)
      | (Some a, w) \<Rightarrow> do {
          w \<leftarrow> pthread_mutex_lock a w;
          e \<leftarrow> ev_cells w a;
          let ret = signalled e;
          w \<leftarrow> pthread_mutex_unlock a w;
          Some (ret, unlock_h C h w)
        })"

section \<open>What each operation does to a usable event\<close>

definition ev_at :: "'h core_api \<Rightarrow> handle \<Rightarrow> 'h world \<Rightarrow> DARWIN_EVENT option" where
  "ev_at C h w = Option.bind (deref C h (core w)) (ev_cells w)"

text \<open>
  A handle is usable by the event operations when it is dead, or names an event cell whose
  mutex is free.
\<close>

definition ev_usable :: "'h core_api \<Rightarrow> handle \<Rightarrow> 'h world \<Rightarrow> bool" where
  "ev_usable C h w \<longleftrightarrow> handle_laws C \<and>
     (deref C h (core w) = None \<or> (\<exists>e. ev_at C h w = Some e \<and> \<not> mutex_held e))"

definition ev_signalled :: "'h core_api \<Rightarrow> handle \<Rightarrow> 'h world \<Rightarrow> bool" where
  "ev_signalled C h w = (case ev_at C h w of None \<Rightarrow> True | Some e \<Rightarrow> signalled e)"

definition ev_kind :: "'h core_api \<Rightarrow> handle \<Rightarrow> 'h world \<Rightarrow> event_type" where
  "ev_kind C h w = (case ev_at C h w of None \<Rightarrow> OFC_EVENT_AUTO | Some e \<Rightarrow> eventType e)"

definition ev_write :: "'h core_api \<Rightarrow> handle \<Rightarrow> bool \<Rightarrow> 'h world \<Rightarrow> 'h world" where
  "ev_write C h b w =
     (case deref C h (core w) of None \<Rightarrow> w
      | Some a \<Rightarrow> (case ev_cells w a of None \<Rightarrow> w
                  | Some e \<Rightarrow> w\<lparr>ev_cells := (ev_cells w)(a \<mapsto> e\<lparr>signalled := b\<rparr>)\<rparr>))"

lemma ev_usable_cases:
  assumes "ev_usable C h w"
  obtains (dead) "handle_laws C" and "deref C h (core w) = None"
  | (live) a e where "handle_laws C" and "deref C h (core w) = Some a"
      and "ev_cells w a = Some e" and "\<not> mutex_held e"
  using assms unfolding ev_usable_def ev_at_def by (cases "deref C h (core w)") auto

lemmas event_cell_defs [op_defs] =
  pthread_mutex_lock_def pthread_mutex_unlock_def put_signalled_def lock_h_eq unlock_h_def

lemma release_triv [simp]:
  "\<not> mutex_held e \<Longrightarrow> e\<lparr>mutex_held := False\<rparr> = e"
  by (cases e) simp

lemma event_test_eq:
  assumes "ev_usable C h w"
  shows "ofc_event_test_impl C h w = Some (ev_signalled C h w, w)"
  using assms
proof (cases rule: ev_usable_cases)
  case dead
  then show ?thesis
    by (simp add: ofc_event_test_impl_def lock_h_None ev_signalled_def ev_at_def)
next
  case (live a e)
  then show ?thesis
    by (simp add: ofc_event_test_impl_def ev_signalled_def ev_at_def op_defs
        unlock_after_lock fun_upd_idem)
qed

lemma event_get_type_eq:
  assumes "ev_usable C h w"
  shows "ofc_event_get_type_impl C h w = Some (ev_kind C h w, w)"
  using assms
proof (cases rule: ev_usable_cases)
  case dead
  then show ?thesis by (simp add: ofc_event_get_type_impl_def lock_h_None ev_kind_def ev_at_def)
next
  case (live a e)
  then show ?thesis
    by (simp add: ofc_event_get_type_impl_def ev_kind_def ev_at_def op_defs unlock_after_lock)
qed

lemma event_reset_eq:
  assumes "ev_usable C h w"
  shows "ofc_event_reset_impl C h w = Some (ev_write C h False w)"
  using assms
proof (cases rule: ev_usable_cases)
  case dead
  then show ?thesis by (simp add: ofc_event_reset_impl_def lock_h_None ev_write_def)
next
  case (live a e)
  then show ?thesis
    by (simp add: ofc_event_reset_impl_def ev_write_def op_defs unlock_after_lock)
qed

section \<open>Frames\<close>

lemma ev_write_core [frame]: "core (ev_write C h b w) = core w"
  by (simp add: ev_write_def split: option.split)

lemma ev_write_rest:
  "ev_write C h b w = w\<lparr>ev_cells := ev_cells (ev_write C h b w)\<rparr>"
  by (simp add: ev_write_def split: option.split)

lemma ev_write_other [frame]:
  "pipes (ev_write C h b w) = pipes w" "fds (ev_write C h b w) = fds w"
  "ws_cells (ev_write C h b w) = ws_cells w" "dws_cells (ev_write C h b w) = dws_cells w"
  "sk_cells (ev_write C h b w) = sk_cells w" "th_cells (ev_write C h b w) = th_cells w"
  "calls (ev_write C h b w) = calls w"
  by (simp_all add: ev_write_def split: option.split)

lemma ev_at_write:
  assumes "handle_laws C"
  shows "ev_at C h' (ev_write C h b w) =
    (if h' = h then map_option (signalled_update (\<lambda>_. b)) (ev_at C h w) else ev_at C h' w)"
proof (cases "h' = h")
  case True
  then show ?thesis by (simp add: ev_at_def ev_write_def split: option.split)
next
  case False
  then have "deref C h (core w) = Some a \<Longrightarrow> deref C h' (core w) \<noteq> Some a" for a
    using handle_lawsD(5) [OF assms] by blast
  with False show ?thesis
    by (cases "deref C h' (core w)") (auto simp: ev_at_def ev_write_def split: option.split)
qed

lemma ev_usable_write:
  "ev_usable C h' (ev_write C h b w) = ev_usable C h' w"
  by (auto simp: ev_usable_def frame ev_at_write split: if_splits)

lemma ev_signalled_write:
  "handle_laws C \<Longrightarrow> ev_signalled C h' (ev_write C h b w) =
    (if h' = h \<and> ev_at C h w \<noteq> None then b else ev_signalled C h' w)"
  by (auto simp: ev_signalled_def ev_at_write split: option.split)

lemma ev_kind_write:
  "handle_laws C \<Longrightarrow> ev_kind C h' (ev_write C h b w) = ev_kind C h' w"
  by (auto simp: ev_kind_def ev_at_write split: option.split)

text \<open>Notifying a wait set neither reads nor writes the event cells, nor moves the handle layer.\<close>

lemma write_handle_frame:
  "write_handle f e w = Some w' \<Longrightarrow> ev_cells w' = ev_cells w \<and> core w' = core w \<and>
     ws_cells w' = ws_cells w \<and> dws_cells w' = dws_cells w \<and> fds w' = fds w \<and>
     sk_cells w' = sk_cells w \<and> th_cells w' = th_cells w \<and> calls w' = calls w"
  by (auto simp: write_handle_def split: option.splits if_splits)

lemma signal_ev_cells:
  "ofc_waitset_signal_impl C h e (w\<lparr>ev_cells := m\<rparr>) =
   map_option (\<lambda>w. w\<lparr>ev_cells := m\<rparr>) (ofc_waitset_signal_impl C h e w)"
proof -
  have "write_handle f e (w\<lparr>ev_cells := m, core := s\<rparr>) =
    map_option (\<lambda>w. w\<lparr>ev_cells := m\<rparr>) (write_handle f e (w\<lparr>core := s\<rparr>))" for f s
    by (auto simp: write_handle_def split: option.split)
  then show ?thesis
    by (auto simp: ofc_waitset_signal_impl_def lock_h_eq unlock_h_def map_option_case
        split: option.splits Option.bind_splits)
qed

lemma signal_frame:
  assumes "handle_laws C" and "ofc_waitset_signal_impl C h e w = Some w'"
  shows "ev_cells w' = ev_cells w \<and> core w' = core w \<and>
     ws_cells w' = ws_cells w \<and> dws_cells w' = dws_cells w \<and> fds w' = fds w \<and>
     sk_cells w' = sk_cells w \<and> th_cells w' = th_cells w \<and> calls w' = calls w"
proof (cases "deref C h (core w)")
  case None
  with assms show ?thesis by (simp add: signal_invalid)
next
  case (Some a)
  with assms show ?thesis
    by (auto simp: ofc_waitset_signal_impl_def lock_h_eq unlock_h_def unlock_after_lock
        elim!: bind_SomeE dest!: write_handle_frame)
qed

text \<open>Notifying a wait set while some handle is locked does the same as without that lock.\<close>

lemma signal_core:
  assumes "handle_laws C" and "core_reads C s = core_reads C (core w)"
  shows "ofc_waitset_signal_impl C h e (w\<lparr>core := s\<rparr>) =
    map_option (\<lambda>w. w\<lparr>core := s\<rparr>) (ofc_waitset_signal_impl C h e w)"
proof -
  have d: "deref C h s = deref C h (core w)" by (rule core_reads_eqD(1) [OF assms(2)])
  have wr: "write_handle f e (w\<lparr>core := s\<rparr>) = map_option (\<lambda>w. w\<lparr>core := s\<rparr>) (write_handle f e w)"
    for f by (auto simp: write_handle_def split: option.split)
  show ?thesis
  proof (cases "deref C h (core w)")
    case None
    with d show ?thesis by (simp add: signal_invalid [OF assms(1)])
  next
    case (Some a)
    with d handle_lawsD(2) [OF assms(1), of h s a] handle_lawsD(2) [OF assms(1) Some] wr show ?thesis
      by (auto simp: ofc_waitset_signal_impl_def lock_h_eq unlock_h_def split: Option.bind_split)
  qed
qed

text \<open>
  Setting an event: on a dead handle nothing; otherwise the flag is raised and, when the
  event belongs to a wait set, the wait set is notified with the event's own handle.
\<close>

lemma event_set_eq:
  assumes "ev_usable C h w"
  shows "ofc_event_set_impl C h w =
    (if deref C h (core w) = None then Some w
     else let ws = ofc_handle_get_wait_set C h (core w) in
          map_option (ev_write C h True)
            (if ws \<noteq> OFC_HANDLE_NULL then ofc_waitset_signal_impl C ws h w else Some w))"
  using assms
proof (cases rule: ev_usable_cases)
  case dead
  then show ?thesis by (simp add: ofc_event_set_impl_def lock_h_None)
next
  case (live a e)
  let ?ws = "ofc_handle_get_wait_set C h (core w)"
  let ?m = "(ev_cells w)(a \<mapsto> e\<lparr>mutex_held := True, signalled := True\<rparr>)"
  have held: "ofc_event_set_impl C h w =
    Option.bind (if ?ws \<noteq> OFC_HANDLE_NULL then ofc_waitset_signal_impl C ?ws h (w\<lparr>ev_cells := ?m\<rparr>)
                 else Some (w\<lparr>ev_cells := ?m\<rparr>)) (pthread_mutex_unlock a)"
    using live by (simp add: ofc_event_set_impl_def op_defs unlock_after_lock handle_lawsD(4) Let_def)
  have release: "pthread_mutex_unlock a (v\<lparr>ev_cells := ?m\<rparr>) = Some (ev_write C h True v)"
    if "ev_cells v = ev_cells w" "core v = core w" for v
    using that live by (simp add: op_defs ev_write_def)
  show ?thesis
  proof (cases "ofc_waitset_signal_impl C ?ws h w")
    case None
    with held live release [of w] show ?thesis by (simp add: signal_ev_cells Let_def)
  next
    case (Some v)
    with held live release [of w] release [of v] signal_frame [OF live(1) Some]
    show ?thesis by (simp add: signal_ev_cells Let_def)
  qed
qed

text \<open>An operation on an event that returns found it usable.\<close>

lemma event_returns:
  assumes "handle_laws C"
  shows "ofc_event_set_impl C h w = Some v \<Longrightarrow> ev_usable C h w"
    and "ofc_event_reset_impl C h w = Some v \<Longrightarrow> ev_usable C h w"
    and "ofc_event_test_impl C h w = Some y \<Longrightarrow> ev_usable C h w"
    and "ofc_event_wait_impl C env h w = Some v \<Longrightarrow> ev_usable C h w"
  using assms
  by (auto simp: ev_usable_def ev_at_def ofc_event_set_impl_def ofc_event_reset_impl_def
      ofc_event_test_impl_def ofc_event_wait_impl_def op_defs split: option.splits if_splits elim!: bind_SomeE)

lemma event_set_frame:
  assumes "handle_laws C" and "ofc_event_set_impl C h w = Some v"
  shows "core v = core w \<and> th_cells v = th_cells w"
proof -
  let ?ws = "ofc_handle_get_wait_set C h (core w)"
  consider "v = w" | u where "v = ev_write C h True u"
      "u = w \<or> ofc_waitset_signal_impl C ?ws h w = Some u"
    using assms(2) event_set_eq [OF event_returns(1) [OF assms]]
    by (auto simp: Let_def split: if_splits)
  then show ?thesis using signal_frame [OF assms(1)] by cases (auto simp: frame)
qed

section \<open>The contract of the scheduler loop with events\<close>

text \<open>What the loop is given of an event implementation.\<close>

record 's event_api =
  ev_test :: "handle \<Rightarrow> 's \<Rightarrow> (bool \<times> 's) option"
  ev_get_type :: "handle \<Rightarrow> 's \<Rightarrow> (event_type \<times> 's) option"
  ev_reset :: "handle \<Rightarrow> 's \<Rightarrow> 's option"

definition event_impl :: "'h core_api \<Rightarrow> 'h world event_api" where
  "event_impl C = \<lparr>ev_test = ofc_event_test_impl C, ev_get_type = ofc_event_get_type_impl C,
                   ev_reset = ofc_event_reset_impl C\<rparr>"

text \<open>
  Testing an event and, when it is set and of type \<open>OFC_EVENT_AUTO\<close>, resetting it: the
  sequence that \<open>PollEvent\<close> and the scan of \<open>ofc_waitset_wait_impl\<close> share.
\<close>

definition consume_event :: "'s event_api \<Rightarrow> handle \<Rightarrow> 's \<Rightarrow> (bool \<times> 's) option" where
  "consume_event E h s = do {
     (t, s) \<leftarrow> ev_test E h s;
     if t then do {
       (ty, s) \<leftarrow> ev_get_type E h s;
       s \<leftarrow> (if ty = OFC_EVENT_AUTO then ev_reset E h s else Some s);
       Some (True, s)
     } else Some (False, s)
   }"

locale event_ops =
  fixes E :: "'s event_api"
    and usable :: "handle \<Rightarrow> 's \<Rightarrow> bool"
    and is_set :: "handle \<Rightarrow> 's \<Rightarrow> bool"
    and kind :: "handle \<Rightarrow> 's \<Rightarrow> event_type"
    and live :: "handle \<Rightarrow> 's \<Rightarrow> bool"
    and rest :: "'s \<Rightarrow> 'r"
  assumes test_law: "usable h s \<Longrightarrow> ev_test E h s = Some (is_set h s, s)"
    and type_law: "usable h s \<Longrightarrow> ev_get_type E h s = Some (kind h s, s)"
    and reset_law: "usable h s \<Longrightarrow> \<exists>s'. ev_reset E h s = Some s' \<and> rest s' = rest s \<and>
          (\<forall>h'. usable h' s' = usable h' s) \<and> (\<forall>h'. kind h' s' = kind h' s) \<and>
          (\<forall>h'. live h' s' = live h' s) \<and>
          (\<forall>h'. is_set h' s' = (if h' = h \<and> live h s then False else is_set h' s))"
begin

lemma consume_unset:
  "usable h s \<Longrightarrow> \<not> is_set h s \<Longrightarrow> consume_event E h s = Some (False, s)"
  by (simp add: consume_event_def test_law)

lemma consume_manual:
  "usable h s \<Longrightarrow> is_set h s \<Longrightarrow> kind h s \<noteq> OFC_EVENT_AUTO \<Longrightarrow>
   consume_event E h s = Some (True, s)"
  by (simp add: consume_event_def test_law type_law)

lemma consume_law:
  assumes "usable h s"
  shows "\<exists>s'. consume_event E h s = Some (is_set h s, s') \<and> rest s' = rest s \<and>
    (\<forall>h'. usable h' s' = usable h' s) \<and> (\<forall>h'. kind h' s' = kind h' s) \<and>
    (\<forall>h'. live h' s' = live h' s) \<and>
    (\<forall>h'. is_set h' s' = (if h' = h \<and> live h s \<and> kind h s = OFC_EVENT_AUTO then False
                          else is_set h' s))"
proof (cases "is_set h s \<and> kind h s = OFC_EVENT_AUTO")
  case True
  with reset_law [OF assms] assms show ?thesis
    by (auto simp: consume_event_def test_law type_law)
next
  case False
  then show ?thesis
    using assms by (cases "is_set h s") (auto simp: consume_unset consume_manual)
qed

text \<open>An auto-reset event is taken by one test only: the second finds it unset.\<close>

lemma consume_auto_once:
  assumes "usable h s" and "live h s" and "kind h s = OFC_EVENT_AUTO"
    and "consume_event E h s = Some (True, s')"
  shows "consume_event E h s' = Some (False, s')"
  using consume_law [OF assms(1)] assms by (auto simp: consume_unset)

end

lemma event_impl_simps [simp]:
  "ev_test (event_impl C) = ofc_event_test_impl C"
  "ev_get_type (event_impl C) = ofc_event_get_type_impl C"
  "ev_reset (event_impl C) = ofc_event_reset_impl C"
  by (simp_all add: event_impl_def)

definition without_events :: "'h world \<Rightarrow> 'h world" where
  "without_events w = w\<lparr>ev_cells := Map.empty\<rparr>"

lemma without_events_write [frame]: "without_events (ev_write C h b w) = without_events w"
  by (simp add: without_events_def ev_write_def split: option.split)

lemma ev_at_write_None: "handle_laws C \<Longrightarrow>
  (ev_at C h' (ev_write C h b w) = None) = (ev_at C h' w = None)"
  by (simp add: ev_at_write)

interpretation darwin_events: event_ops "event_impl C" "ev_usable C" "ev_signalled C" "ev_kind C"
  "\<lambda>h w. ev_at C h w \<noteq> None" without_events for C
proof (unfold_locales, goal_cases)
  case (3 h s)
  then have "handle_laws C" by (simp add: ev_usable_def)
  with 3 show ?case
    by (auto simp: event_reset_eq frame ev_usable_write ev_kind_write ev_signalled_write
        ev_at_write_None simp del: not_None_eq)
qed (simp_all add: event_test_eq event_get_type_eq)

end
