(* ===== verification/Demo_Core.thy ===== *)
theory Demo_Core
  imports Platform
begin

text \<open>
  A concrete handle layer, on which the witnesses of the development are evaluated: a handle
  is the number of its object, with a reference count. It shows that the laws assumed of
  of_core (\<open>handle_laws\<close>, \<open>lifecycle_laws\<close>) can hold together; it is not a model of of_core.
\<close>

record demo =
  d_live :: "nat \<Rightarrow> handle_type option"
  d_refs :: "nat \<Rightarrow> nat"
  d_wait_set :: "nat \<Rightarrow> handle"
  d_queue :: "nat list"
  d_timer :: "nat \<Rightarrow> int"

fun demo_live :: "handle \<Rightarrow> demo \<Rightarrow> handle_type option" where
  "demo_live OFC_HANDLE_NULL s = None"
| "demo_live (Handle a) s = d_live s a"

fun demo_lock :: "handle \<Rightarrow> demo \<Rightarrow> addr option \<times> demo" where
  "demo_lock OFC_HANDLE_NULL s = (None, s)"
| "demo_lock (Handle a) s =
     (if d_live s a = None then (None, s)
      else (Some a, s\<lparr>d_refs := (d_refs s)(a := Suc (d_refs s a))\<rparr>))"

fun demo_unlock :: "handle \<Rightarrow> demo \<Rightarrow> demo" where
  "demo_unlock OFC_HANDLE_NULL s = s"
| "demo_unlock (Handle a) s = s\<lparr>d_refs := (d_refs s)(a := d_refs s a - 1)\<rparr>"

fun demo_destroy :: "handle \<Rightarrow> demo \<Rightarrow> demo" where
  "demo_destroy OFC_HANDLE_NULL s = s"
| "demo_destroy (Handle a) s = s\<lparr>d_live := (d_live s)(a := None)\<rparr>"

fun demo_set_app :: "handle \<Rightarrow> handle \<Rightarrow> handle \<Rightarrow> demo \<Rightarrow> demo" where
  "demo_set_app OFC_HANDLE_NULL app ws s = s"
| "demo_set_app (Handle a) app ws s =
     (if d_live s a = None then s else s\<lparr>d_wait_set := (d_wait_set s)(a := ws)\<rparr>)"

fun demo_wait_set :: "handle \<Rightarrow> demo \<Rightarrow> handle" where
  "demo_wait_set OFC_HANDLE_NULL s = OFC_HANDLE_NULL"
| "demo_wait_set (Handle a) s = d_wait_set s a"

fun demo_timer :: "handle \<Rightarrow> demo \<Rightarrow> int" where
  "demo_timer OFC_HANDLE_NULL s = 0"
| "demo_timer (Handle a) s = d_timer s a"

definition demo_api :: "demo core_api" where
  "demo_api =
     \<lparr>ofc_handle_create = (\<lambda>t a s. (Handle a, s\<lparr>d_live := (d_live s)(a := Some t),
        d_wait_set := (d_wait_set s)(a := OFC_HANDLE_NULL)\<rparr>)),
      ofc_handle_lock = demo_lock,
      ofc_handle_unlock = demo_unlock,
      ofc_handle_destroy = demo_destroy,
      ofc_handle_get_type = (\<lambda>h s. case demo_live h s of None \<Rightarrow> OFC_HANDLE_OTHER 0 | Some t \<Rightarrow> t),
      ofc_handle_get_wait_set = demo_wait_set,
      ofc_handle_set_app = demo_set_app,
      ofc_queue_walk = (\<lambda>q s. map Handle (d_queue s)),
      ofc_waitq_get_event_handle = (\<lambda>h s. h),
      ofc_waitq_empty = (\<lambda>h s. True),
      ofc_timer_get_wait_time = demo_timer,
      OfcFileGetFSType = (\<lambda>h s. OFC_FST_OTHER),
      OfcFileGetFSHandle = (\<lambda>h s. h),
      OfcFileGetOverlappedWaitQ = (\<lambda>h s. h),
      OfcFileGetOverlappedEvent = (\<lambda>h s. h),
      OfcFSDarwinGetFD = (\<lambda>h s. -1),
      OfcFSDarwinGetOverlappedEvent = (\<lambda>h s. h),
      ofc_socket_get_impl = (\<lambda>h s. h),
      OFC_MAX_SCHED_WAIT = 1000,
      OFC_FS_DARWIN = False\<rparr>"

lemma demo_sel [simp]:
  "ofc_handle_create demo_api = (\<lambda>t a s. (Handle a, s\<lparr>d_live := (d_live s)(a := Some t),
     d_wait_set := (d_wait_set s)(a := OFC_HANDLE_NULL)\<rparr>))"
  "ofc_handle_lock demo_api = demo_lock" "ofc_handle_unlock demo_api = demo_unlock"
  "ofc_handle_destroy demo_api = demo_destroy"
  "ofc_handle_get_type demo_api =
     (\<lambda>h s. case demo_live h s of None \<Rightarrow> OFC_HANDLE_OTHER 0 | Some t \<Rightarrow> t)"
  "ofc_handle_get_wait_set demo_api = demo_wait_set"
  "ofc_handle_set_app demo_api = demo_set_app"
  "ofc_queue_walk demo_api = (\<lambda>q s. map Handle (d_queue s))"
  "ofc_waitq_get_event_handle demo_api = (\<lambda>h s. h)"
  "ofc_waitq_empty demo_api = (\<lambda>h s. True)"
  "ofc_timer_get_wait_time demo_api = demo_timer"
  "OfcFileGetFSType demo_api = (\<lambda>h s. OFC_FST_OTHER)"
  "OfcFileGetFSHandle demo_api = (\<lambda>h s. h)"
  "OfcFileGetOverlappedWaitQ demo_api = (\<lambda>h s. h)"
  "OfcFileGetOverlappedEvent demo_api = (\<lambda>h s. h)"
  "OfcFSDarwinGetFD demo_api = (\<lambda>h s. -1)"
  "OfcFSDarwinGetOverlappedEvent demo_api = (\<lambda>h s. h)"
  "ofc_socket_get_impl demo_api = (\<lambda>h s. h)"
  "OFC_MAX_SCHED_WAIT demo_api = 1000"
  "OFC_FS_DARWIN demo_api = False"
  by (simp_all add: demo_api_def)

lemma deref_demo [simp]:
  "deref demo_api OFC_HANDLE_NULL s = None"
  "deref demo_api (Handle a) s = (if d_live s a = None then None else Some a)"
  by (simp_all add: deref_def)

lemma demo_cases: "(\<And>a. h = Handle a \<Longrightarrow> P) \<Longrightarrow> (h = OFC_HANDLE_NULL \<Longrightarrow> P) \<Longrightarrow> P"
  by (cases h) auto

lemma demo_deref_iff: "deref demo_api h s = Some a \<longleftrightarrow> h = Handle a \<and> d_live s a \<noteq> None"
  by (cases h) auto

lemma demo_reads_cong:
  assumes "d_live s' = d_live s" and "d_queue s' = d_queue s" and "d_timer s' = d_timer s"
  shows "core_reads demo_api s' = core_reads demo_api s"
proof -
  have "deref demo_api h s' = deref demo_api h s" "demo_live h s' = demo_live h s"
    "demo_timer h s' = demo_timer h s" for h
    using assms by (cases h; simp)+
  then show ?thesis using assms(2) by (simp add: core_reads_def)
qed

lemma demo_frame:
  "d_live (snd (demo_lock h s)) = d_live s" "d_queue (snd (demo_lock h s)) = d_queue s"
  "d_timer (snd (demo_lock h s)) = d_timer s" "d_wait_set (snd (demo_lock h s)) = d_wait_set s"
  "d_live (demo_set_app h b ws s) = d_live s" "d_queue (demo_set_app h b ws s) = d_queue s"
  "d_timer (demo_set_app h b ws s) = d_timer s"
  by (cases h; simp)+

lemma demo_handle_laws [simp]: "handle_laws demo_api"
proof -
  have "core_reads demo_api (snd (demo_lock h s)) = core_reads demo_api s"
    "core_reads demo_api (demo_set_app h b ws s) = core_reads demo_api s" for h b ws s
    by (rule demo_reads_cong; simp add: demo_frame)+
  moreover have "demo_wait_set h' (snd (demo_lock h s)) = demo_wait_set h' s" for h h' s
    by (cases h'; simp add: demo_frame)
  moreover have "deref demo_api h s = None \<Longrightarrow> snd (demo_lock h s) = s"
    "deref demo_api h s \<noteq> None \<Longrightarrow> demo_unlock h (snd (demo_lock h s)) = s"
    "deref demo_api h s \<noteq> None \<Longrightarrow> demo_wait_set h' (demo_set_app h b ws s) =
       (if h' = h then ws else demo_wait_set h' s)" for h h' b ws s
    by (cases h; cases h'; auto)+
  ultimately show ?thesis by (auto simp: handle_laws_def demo_deref_iff)
qed

lemma demo_lifecycle_laws [simp]: "lifecycle_laws demo_api"
proof -
  have "deref demo_api h s \<noteq> None \<Longrightarrow>
    deref demo_api g (demo_unlock h (demo_destroy h (snd (demo_lock h s)))) =
    (if g = h then None else deref demo_api g s)"
    "deref demo_api h s \<noteq> None \<Longrightarrow> deref demo_api g (demo_destroy h s) =
    (if g = h then None else deref demo_api g s)" for h g s
    by (cases h; cases g; auto)+
  moreover have "g \<noteq> Handle a \<Longrightarrow>
     deref demo_api g (s\<lparr>d_live := (d_live s)(a := Some t), d_wait_set := ws\<rparr>) = deref demo_api g s"
    for g a s t ws by (cases g) auto
  moreover have "d_live s a = None" if "\<forall>g. deref demo_api g s \<noteq> Some a" for s a
    using that [rule_format, of "Handle a"] by (auto split: if_splits)
  moreover have "deref demo_api g (demo_unlock h s) = deref demo_api g s" for g h s
    by (cases h; cases g; simp)
  ultimately show ?thesis by (auto simp: lifecycle_laws_def)
qed

definition demo_world :: "demo \<Rightarrow> demo world" where
  "demo_world s = \<lparr>core = s, ev_cells = Map.empty, ws_cells = Map.empty, dws_cells = Map.empty,
     sk_cells = Map.empty, th_cells = Map.empty, fds = Map.empty, pipes = Map.empty, calls = []\<rparr>"

lemma demo_world_sel [simp]:
  "core (demo_world s) = s" "ev_cells (demo_world s) = Map.empty"
  "ws_cells (demo_world s) = Map.empty" "dws_cells (demo_world s) = Map.empty"
  "sk_cells (demo_world s) = Map.empty" "th_cells (demo_world s) = Map.empty"
  "fds (demo_world s) = Map.empty" "pipes (demo_world s) = Map.empty" "calls (demo_world s) = []"
  by (simp_all add: demo_world_def)

definition demo_empty :: demo where
  "demo_empty = \<lparr>d_live = (\<lambda>_. None), d_refs = (\<lambda>_. 0), d_wait_set = (\<lambda>_. OFC_HANDLE_NULL),
     d_queue = [], d_timer = (\<lambda>_. 0)\<rparr>"

lemma demo_empty_sel [simp]:
  "d_live demo_empty = (\<lambda>_. None)" "d_refs demo_empty = (\<lambda>_. 0)"
  "d_wait_set demo_empty = (\<lambda>_. OFC_HANDLE_NULL)" "d_queue demo_empty = []"
  "d_timer demo_empty = (\<lambda>_. 0)"
  by (simp_all add: demo_empty_def)

end
