(* ===== verification/Thread_Darwin.thy ===== *)
theory Thread_Darwin
  imports Event_Darwin Demo_Core
begin

text \<open>
  Threads (\<open>src/thread_darwin.c\<close>): the life of a \<open>DARWIN_THREAD\<close> cell from creation through
  \<open>ofc_thread_launch\<close> to join or detach, the request to stop (\<open>ofc_thread_delete_impl\<close>), sleeping
  and thread variables.

  Parameters: \<open>U\<close>, the entry points of of_core the file calls back into; \<open>run\<close>, the function
  the thread executes; \<open>env\<close>, what other threads do at a point where they can run.
\<close>

record 'h upcalls =
  up_event_set :: "handle \<Rightarrow> 'h world \<Rightarrow> 'h world option"
  up_waitset_wake :: "handle \<Rightarrow> 'h world \<Rightarrow> 'h world option"

text \<open>The entry points as of_core forwards them to this platform.\<close>

definition direct :: "'h core_api \<Rightarrow> 'h upcalls" where
  "direct C = \<lparr>up_event_set = ofc_event_set_impl C, up_waitset_wake = ofc_waitset_wake_impl C\<rparr>"

section \<open>The operations\<close>

definition record_call :: "call \<Rightarrow> 'h world \<Rightarrow> 'h world" where
  "record_call c w = w\<lparr>calls := calls w @ [c]\<rparr>"

definition put_thread :: "addr \<Rightarrow> DARWIN_THREAD \<Rightarrow> 'h world \<Rightarrow> 'h world" where
  "put_thread a T w = w\<lparr>th_cells := (th_cells w)(a \<mapsto> T)\<rparr>"

definition free_thread :: "addr \<Rightarrow> 'h world \<Rightarrow> 'h world" where
  "free_thread a w = w\<lparr>th_cells := (th_cells w)(a := None)\<rparr>"

definition ofc_thread_launch ::
  "'h core_api \<Rightarrow> 'h upcalls \<Rightarrow> (handle \<Rightarrow> nat \<Rightarrow> 'h world \<Rightarrow> (u32 \<times> 'h world) option) \<Rightarrow>
   addr \<Rightarrow> 'h world \<Rightarrow> 'h world option" where
  "ofc_thread_launch C U run a w = do {
     T \<leftarrow> th_cells w a;
     (r, w) \<leftarrow> run (th_handle T) (th_context T) w;
     T \<leftarrow> th_cells w a;
     let w = put_thread a (T\<lparr>th_ret := r\<rparr>) w;
     w \<leftarrow> (if hNotify T \<noteq> OFC_HANDLE_NULL then up_event_set U (hNotify T) w else Some w);
     T \<leftarrow> th_cells w a;
     if th_detachstate T = OFC_THREAD_DETACH then do {
       let w = record_call (Pthread_cancel (th_thread T)) w;
       let w = destroy_h C (th_handle T) w;
       Some (free_thread a w)
     } else Some w
   }"

text \<open>
  \<open>m\<close> is what \<open>ofc_malloc\<close> returned, \<open>g\<close> the bytes the cell held, \<open>ans\<close> the thread that
  \<open>pthread_create\<close> started or \<open>None\<close> when it failed; \<open>env\<close> is what runs between its return
  and the read of \<open>darwinThread->handle\<close>.
\<close>

definition ofc_thread_create_impl ::
  "'h core_api \<Rightarrow> nat \<Rightarrow> nat \<Rightarrow> detachstate \<Rightarrow> handle \<Rightarrow> addr option \<Rightarrow> DARWIN_THREAD \<Rightarrow>
   nat option \<Rightarrow> ('h world \<Rightarrow> 'h world option) \<Rightarrow> 'h world \<Rightarrow> (handle \<times> 'h world) option" where
  "ofc_thread_create_impl C scheduler context ds notify m g ans env w =
     (case m of
        None \<Rightarrow> Some (OFC_HANDLE_NULL, w)
      | Some a \<Rightarrow> do {
          let T = g\<lparr>th_wait_set := OFC_HANDLE_NULL, deleteMe := False, th_scheduler := scheduler,
                    th_context := context, hNotify := notify\<rparr>;
          let (h, s) = ofc_handle_create C OFC_HANDLE_THREAD a (core w);
          let w = w\<lparr>core := s\<rparr>;
          let T = T\<lparr>th_handle := h, th_detachstate := ds\<rparr>;
          let w = record_call (Pthread_create a ds) (put_thread a T w);
          case ans of
            None \<Rightarrow> Some (OFC_HANDLE_NULL, free_thread a (destroy_h C (th_handle T) w))
          | Some t \<Rightarrow> do {
              w \<leftarrow> env (put_thread a (T\<lparr>th_thread := t\<rparr>) w);
              T \<leftarrow> th_cells w a;
              Some (th_handle T, w)
            }
        })"

definition ofc_thread_set_waitset_impl ::
  "'h core_api \<Rightarrow> handle \<Rightarrow> handle \<Rightarrow> 'h world \<Rightarrow> 'h world option" where
  "ofc_thread_set_waitset_impl C h ws w =
     (case lock_h C h w of
        (None, w) \<Rightarrow> Some w
      | (Some a, w) \<Rightarrow> do {
          T \<leftarrow> th_cells w a;
          Some (unlock_h C h (put_thread a (T\<lparr>th_wait_set := ws\<rparr>) w))
        })"

definition ofc_thread_delete_impl ::
  "'h core_api \<Rightarrow> 'h upcalls \<Rightarrow> handle \<Rightarrow> 'h world \<Rightarrow> 'h world option" where
  "ofc_thread_delete_impl C U h w =
     (case lock_h C h w of
        (None, w) \<Rightarrow> Some w
      | (Some a, w) \<Rightarrow> do {
          T \<leftarrow> th_cells w a;
          let w = put_thread a (T\<lparr>deleteMe := True\<rparr>) w;
          w \<leftarrow> (if th_wait_set T \<noteq> OFC_HANDLE_NULL then up_waitset_wake U (th_wait_set T) w
                else Some w);
          Some (unlock_h C h w)
        })"

text \<open>\<open>pthread_join\<close> blocks until the thread has ended; \<open>env\<close> is what runs meanwhile.\<close>

definition ofc_thread_wait_impl ::
  "'h core_api \<Rightarrow> ('h world \<Rightarrow> 'h world option) \<Rightarrow> handle \<Rightarrow> 'h world \<Rightarrow> 'h world option" where
  "ofc_thread_wait_impl C env h w =
     (case lock_h C h w of
        (None, w) \<Rightarrow> Some w
      | (Some a, w) \<Rightarrow> do {
          T \<leftarrow> th_cells w a;
          w \<leftarrow> (if th_detachstate T = OFC_THREAD_JOIN then do {
                  w \<leftarrow> env (record_call (Pthread_join (th_thread T)) w);
                  T \<leftarrow> th_cells w a;
                  Some (free_thread a (destroy_h C (th_handle T) w))
                } else Some w);
          Some (unlock_h C h w)
        })"

definition ofc_thread_is_deleting_impl ::
  "'h core_api \<Rightarrow> handle \<Rightarrow> 'h world \<Rightarrow> (bool \<times> 'h world) option" where
  "ofc_thread_is_deleting_impl C h w =
     (case lock_h C h w of
        (None, w) \<Rightarrow> Some (False, w)
      | (Some a, w) \<Rightarrow> do {
          T \<leftarrow> th_cells w a;
          Some (if deleteMe T then True else False, unlock_h C h w)
        })"

definition ofc_thread_detach_impl :: "'h core_api \<Rightarrow> handle \<Rightarrow> 'h world \<Rightarrow> 'h world option" where
  "ofc_thread_detach_impl C h w =
     (case lock_h C h w of
        (None, w) \<Rightarrow> Some w
      | (Some a, w) \<Rightarrow> do {
          T \<leftarrow> th_cells w a;
          let w = put_thread a (T\<lparr>th_detachstate := OFC_THREAD_DETACH\<rparr>) w;
          let w = record_call (Pthread_detach (th_thread T)) w;
          Some (unlock_h C h w)
        })"

text \<open>
  Sleeping. \<open>OFC_INFINITE\<close> is a constant of of_core, \<open>milliseconds * 1000\<close> is computed in 32 bits.
\<close>

datatype sleep_call = Sleep_days_for_ever | Usleep u32

definition ofc_sleep_impl :: "u32 \<Rightarrow> u32 \<Rightarrow> sleep_call" where
  "ofc_sleep_impl inf_ms milliseconds =
     (if milliseconds = inf_ms then Sleep_days_for_ever else Usleep (milliseconds * 1000))"

text \<open>
  Thread variables: the keys of the calling thread. \<open>pthread_key_t\<close> is 64 bits wide on Darwin,
  \<open>OFC_DWORD\<close> 32: \<open>key\<close> is what \<open>pthread_key_create\<close> stored.
\<close>

record tls =
  tls_live :: "u64 \<Rightarrow> bool"
  tls_value :: "u64 \<Rightarrow> u64"

definition ofc_thread_create_variable_impl :: "u64 \<Rightarrow> tls \<Rightarrow> u32 \<times> tls" where
  "ofc_thread_create_variable_impl key s =
     (ucast key, s\<lparr>tls_live := (tls_live s)(key := True), tls_value := (tls_value s)(key := 0)\<rparr>)"

definition ofc_thread_destroy_variable_impl :: "u32 \<Rightarrow> tls \<Rightarrow> tls" where
  "ofc_thread_destroy_variable_impl dkey s = s\<lparr>tls_live := (tls_live s)(ucast dkey := False)\<rparr>"

text \<open>\<open>pthread_getspecific\<close> gives null, \<open>pthread_setspecific\<close> fails, for a key that is not live.\<close>

definition ofc_thread_get_variable_impl :: "u32 \<Rightarrow> tls \<Rightarrow> u64" where
  "ofc_thread_get_variable_impl var s =
     (if tls_live s (ucast var) then tls_value s (ucast var) else 0)"

definition ofc_thread_set_variable_impl :: "u32 \<Rightarrow> u64 \<Rightarrow> tls \<Rightarrow> tls" where
  "ofc_thread_set_variable_impl var val s =
     (if tls_live s (ucast var) then s\<lparr>tls_value := (tls_value s)(ucast var := val)\<rparr> else s)"

section \<open>What the operations do\<close>

definition th_at :: "'h core_api \<Rightarrow> handle \<Rightarrow> 'h world \<Rightarrow> DARWIN_THREAD option" where
  "th_at C h w = Option.bind (deref C h (core w)) (th_cells w)"

definition th_update ::
  "'h core_api \<Rightarrow> handle \<Rightarrow> (DARWIN_THREAD \<Rightarrow> DARWIN_THREAD) \<Rightarrow> 'h world \<Rightarrow> 'h world" where
  "th_update C h f w =
     (case deref C h (core w) of None \<Rightarrow> w
      | Some a \<Rightarrow> (case th_cells w a of None \<Rightarrow> w | Some T \<Rightarrow> put_thread a (f T) w))"

lemmas thread_defs [op_defs] = put_thread_def free_thread_def record_call_def destroy_h_def

lemma th_atE:
  assumes "th_at C h w = Some T"
  obtains a where "deref C h (core w) = Some a" and "th_cells w a = Some T"
  using assms unfolding th_at_def by (auto elim: bind_SomeE)

lemma set_waitset_eq:
  assumes "handle_laws C" and "th_at C h w = Some T"
  shows "ofc_thread_set_waitset_impl C h ws w = Some (th_update C h (th_wait_set_update (\<lambda>_. ws)) w)"
  using assms(2) by (rule th_atE)
    (simp add: ofc_thread_set_waitset_impl_def lock_h_eq unlock_h_def op_defs th_update_def
      handle_lawsD(2) [OF assms(1)])

lemma is_deleting_eq:
  assumes "handle_laws C" and "th_at C h w = Some T"
  shows "ofc_thread_is_deleting_impl C h w = Some (deleteMe T, w)"
  using assms(2) by (rule th_atE)
    (simp add: ofc_thread_is_deleting_impl_def lock_h_eq unlock_h_def handle_lawsD(2) [OF assms(1)])

lemma detach_eq:
  assumes "handle_laws C" and "th_at C h w = Some T"
  shows "ofc_thread_detach_impl C h w =
    Some (record_call (Pthread_detach (th_thread T))
      (th_update C h (th_detachstate_update (\<lambda>_. OFC_THREAD_DETACH)) w))"
  using assms(2) by (rule th_atE)
    (simp add: ofc_thread_detach_impl_def lock_h_eq unlock_h_def op_defs th_update_def
      handle_lawsD(2) [OF assms(1)])

lemma th_update_frame [frame]:
  "core (th_update C h f w) = core w" "pipes (th_update C h f w) = pipes w"
  "fds (th_update C h f w) = fds w" "ws_cells (th_update C h f w) = ws_cells w"
  "dws_cells (th_update C h f w) = dws_cells w" "ev_cells (th_update C h f w) = ev_cells w"
  "sk_cells (th_update C h f w) = sk_cells w" "calls (th_update C h f w) = calls w"
  by (simp_all add: th_update_def put_thread_def split: option.split)

lemma th_at_update_self: "th_at C h (th_update C h f w) = map_option f (th_at C h w)"
  by (simp add: th_at_def th_update_def put_thread_def split: option.split)

text \<open>Notifying a wait set commutes with writing a thread cell.\<close>

lemma signal_th_cells:
  "ofc_waitset_signal_impl C h e (w\<lparr>th_cells := m\<rparr>) =
   map_option (\<lambda>w. w\<lparr>th_cells := m\<rparr>) (ofc_waitset_signal_impl C h e w)"
proof -
  have "write_handle f e (w\<lparr>th_cells := m, core := s\<rparr>) =
    map_option (\<lambda>w. w\<lparr>th_cells := m\<rparr>) (write_handle f e (w\<lparr>core := s\<rparr>))" for f s
    by (auto simp: write_handle_def split: option.split)
  then show ?thesis
    by (auto simp: ofc_waitset_signal_impl_def lock_h_eq unlock_h_def map_option_case
        split: option.splits Option.bind_splits)
qed

lemma direct_sel [simp]:
  "up_event_set (direct C) = ofc_event_set_impl C"
  "up_waitset_wake (direct C) = ofc_waitset_wake_impl C"
  by (simp_all add: direct_def)

lemma delete_eq:
  assumes "handle_laws C" and "th_at C h w = Some T"
  shows "ofc_thread_delete_impl C (direct C) h w =
    map_option (th_update C h (deleteMe_update (\<lambda>_. True)))
      (if th_wait_set T \<noteq> OFC_HANDLE_NULL then ofc_waitset_wake_impl C (th_wait_set T) w else Some w)"
  using assms(2)
proof (rule th_atE)
  fix a assume a: "deref C h (core w) = Some a" "th_cells w a = Some T"
  let ?s = "snd (ofc_handle_lock C h (core w))"
  let ?m = "(th_cells w)(a \<mapsto> T\<lparr>deleteMe := True\<rparr>)"
  have unlock: "ofc_handle_unlock C h ?s = core w" by (rule handle_lawsD(2) [OF assms(1) a(1)])
  have sig: "ofc_waitset_signal_impl C g e (w\<lparr>core := ?s, th_cells := ?m\<rparr>) =
      map_option (\<lambda>v. v\<lparr>core := ?s, th_cells := ?m\<rparr>) (ofc_waitset_signal_impl C g e w)" for g e
    using signal_th_cells [where w = "w\<lparr>core := ?s\<rparr>" and m = ?m and h = g and e = e and C = C]
      signal_core [OF assms(1), of ?s w g e] handle_lawsD(3) [OF assms(1), of h "core w"]
    by (simp add: option.map_comp o_def)
  have up: "th_update C h (deleteMe_update (\<lambda>_. True)) v = v\<lparr>th_cells := ?m\<rparr>"
    if "core v = core w" "th_cells v = th_cells w" for v
    using that a by (simp add: th_update_def put_thread_def)
  have fr: "core v = core w \<and> th_cells v = th_cells w"
    if "ofc_waitset_signal_impl C g e w = Some v" for g e v
    using signal_frame [OF assms(1) that] by simp
  have body: "ofc_thread_delete_impl C (direct C) h w =
     Option.bind (if th_wait_set T \<noteq> OFC_HANDLE_NULL
       then ofc_waitset_signal_impl C (th_wait_set T) OFC_HANDLE_NULL (w\<lparr>core := ?s, th_cells := ?m\<rparr>)
       else Some (w\<lparr>core := ?s, th_cells := ?m\<rparr>)) (\<lambda>v. Some (unlock_h C h v))"
    using a by (simp add: ofc_thread_delete_impl_def lock_h_eq put_thread_def ofc_waitset_wake_impl_def
        Let_def)
  show ?thesis
  proof (cases "th_wait_set T = OFC_HANDLE_NULL")
    case True
    then show ?thesis by (simp add: body up unlock_h_def unlock)
  next
    case False
    then show ?thesis
      by (cases "ofc_waitset_signal_impl C (th_wait_set T) OFC_HANDLE_NULL w")
        (auto simp: body sig up unlock_h_def unlock ofc_waitset_wake_impl_def dest!: fr)
  qed
qed

text \<open>Joining: what the cell and the handle are afterwards.\<close>

lemma join_eq:
  assumes "handle_laws C" and "th_at C h w = Some T" and "th_detachstate T = OFC_THREAD_JOIN"
    and "th_handle T = h"
  shows "ofc_thread_wait_impl C Some h w = (case deref C h (core w) of None \<Rightarrow> None | Some a \<Rightarrow>
     Some (w\<lparr>core := ofc_handle_unlock C h (ofc_handle_destroy C h (snd (ofc_handle_lock C h (core w)))),
             th_cells := (th_cells w)(a := None),
             calls := calls w @ [Pthread_join (th_thread T)]\<rparr>))"
  using assms(2) by (rule th_atE)
    (simp add: ofc_thread_wait_impl_def lock_h_eq unlock_h_def op_defs assms(3,4))

lemma wait_not_joinable:
  assumes "handle_laws C" and "th_at C h w = Some T" and "th_detachstate T \<noteq> OFC_THREAD_JOIN"
  shows "ofc_thread_wait_impl C env h w = Some w"
  using assms(2) by (rule th_atE)
    (simp add: ofc_thread_wait_impl_def lock_h_eq unlock_h_def assms(3) handle_lawsD(2) [OF assms(1)])

lemma wait_dead:
  "handle_laws C \<Longrightarrow> deref C h (core w) = None \<Longrightarrow> ofc_thread_wait_impl C env h w = Some w"
  by (simp add: ofc_thread_wait_impl_def lock_h_None)

section \<open>The cells and the handles agree\<close>

text \<open>
  What can happen to the threads of a process. The function a thread runs (\<open>run\<close>), and whatever
  goes on between the return of \<open>pthread_create\<close> and that of \<open>ofc_thread_create_impl\<close> (\<open>env\<close>), consist
  of such steps themselves; a cell is allocated where there is none and where no handle points; a
  join is made when the thread has ended. \<open>other\<close> is any step of the rest of the program: events,
  wait sets, sockets, pipes, timers.
\<close>

inductive th_step :: "'h core_api \<Rightarrow> 'h world \<Rightarrow> 'h world \<Rightarrow> bool" for C where
  create: "ofc_thread_create_impl C f x ds n m g ans env w = Some (h, w') \<Longrightarrow>
     (\<And>a. m = Some a \<Longrightarrow> th_cells w a = None \<and> (\<forall>k. deref C k (core w) \<noteq> Some a)) \<Longrightarrow>
     (\<And>u v. env u = Some v \<Longrightarrow> (th_step C)\<^sup>*\<^sup>* u v) \<Longrightarrow> th_step C w w'"
| set_waitset: "ofc_thread_set_waitset_impl C h ws w = Some w' \<Longrightarrow> th_step C w w'"
| delete: "ofc_thread_delete_impl C (direct C) h w = Some w' \<Longrightarrow> th_step C w w'"
| is_deleting: "ofc_thread_is_deleting_impl C h w = Some (b, w') \<Longrightarrow> th_step C w w'"
| detach: "ofc_thread_detach_impl C h w = Some w' \<Longrightarrow> th_step C w w'"
| join: "ofc_thread_wait_impl C Some h w = Some w' \<Longrightarrow> th_step C w w'"
| launch: "ofc_thread_launch C (direct C) run a w = Some w' \<Longrightarrow>
     (\<And>k x u r v. run k x u = Some (r, v) \<Longrightarrow> (th_step C)\<^sup>*\<^sup>* u v) \<Longrightarrow> th_step C w w'"
| other: "th_cells w' = th_cells w \<Longrightarrow> (\<And>g. deref C g (core w') = deref C g (core w)) \<Longrightarrow> th_step C w w'"

text \<open>
  Every allocated thread cell is named by its own handle, which is live; and every handle that is
  live in \<open>w\<close> names an allocated thread cell, unless it already named something else in \<open>w0\<close>.
\<close>

definition cells_named :: "'h core_api \<Rightarrow> 'h world \<Rightarrow> bool" where
  "cells_named C w \<longleftrightarrow>
     (\<forall>a T. th_cells w a = Some T \<longrightarrow> deref C (th_handle T) (core w) = Some a)"

definition handles_backed :: "'h core_api \<Rightarrow> 'h world \<Rightarrow> 'h world \<Rightarrow> bool" where
  "handles_backed C w0 w \<longleftrightarrow> (\<forall>g b. deref C g (core w) = Some b \<longrightarrow>
     th_cells w b \<noteq> None \<or> deref C g (core w0) = Some b \<and> th_cells w0 b = None)"

definition threads_ok :: "'h core_api \<Rightarrow> 'h world \<Rightarrow> 'h world \<Rightarrow> bool" where
  "threads_ok C w0 w \<longleftrightarrow> cells_named C w \<and> handles_backed C w0 w"

end
