(* ===== verification/Socket_Events.thy ===== *)
theory Socket_Events
  imports Signal_Darwin
begin

text \<open>
  The event side of a socket (\<open>src/socket_darwin.c\<close>): which poll bits it waits for, which
  it got, and the translation between the poll bits of Darwin and the socket events of
  of_core. The scheduler loop uses this part of the socket only.
\<close>

text \<open>The bits of Darwin's \<open>poll.h\<close>.\<close>

definition POLLIN :: u16 where "POLLIN = 0x0001"
definition POLLPRI :: u16 where "POLLPRI = 0x0002"
definition POLLOUT :: u16 where "POLLOUT = 0x0004"
definition POLLERR :: u16 where "POLLERR = 0x0008"
definition POLLHUP :: u16 where "POLLHUP = 0x0010"
definition POLLRDBAND :: u16 where "POLLRDBAND = 0x0080"
definition POLLWRBAND :: u16 where "POLLWRBAND = 0x0100"

lemmas poll_bits = POLLIN_def POLLPRI_def POLLOUT_def POLLERR_def POLLHUP_def POLLRDBAND_def
  POLLWRBAND_def

text \<open>
  The event bits of of_core (\<open>OFC_SOCKET_EVENT_TYPE\<close>) are declared outside the repository:
  they are a parameter, of which the code relies on no two sharing a bit.
\<close>

record event_bits =
  OFC_SOCKET_EVENT_CLOSE :: u32
  OFC_SOCKET_EVENT_ACCEPT :: u32
  OFC_SOCKET_EVENT_ADDRESSCHANGE :: u32
  OFC_SOCKET_EVENT_QOS :: u32
  OFC_SOCKET_EVENT_QOB :: u32
  OFC_SOCKET_EVENT_READ :: u32
  OFC_SOCKET_EVENT_WRITE :: u32

definition bit_list :: "event_bits \<Rightarrow> u32 list" where
  "bit_list B = [OFC_SOCKET_EVENT_CLOSE B, OFC_SOCKET_EVENT_ACCEPT B,
     OFC_SOCKET_EVENT_ADDRESSCHANGE B, OFC_SOCKET_EVENT_QOS B, OFC_SOCKET_EVENT_QOB B,
     OFC_SOCKET_EVENT_READ B, OFC_SOCKET_EVENT_WRITE B]"

definition disjoint_bits :: "event_bits \<Rightarrow> bool" where
  "disjoint_bits B \<longleftrightarrow> 0 \<notin> set (bit_list B) \<and>
     (\<forall>i < 7. \<forall>j < 7. i \<noteq> j \<longrightarrow> bit_list B ! i AND bit_list B ! j = 0)"

section \<open>The operations\<close>

definition ofc_socket_impl_set_event ::
  "'h core_api \<Rightarrow> handle \<Rightarrow> u16 \<Rightarrow> 'h world \<Rightarrow> 'h world option" where
  "ofc_socket_impl_set_event C h r w =
     (case lock_h C h w of
        (None, w) \<Rightarrow> Some w
      | (Some a, w) \<Rightarrow> do {
          sk \<leftarrow> sk_cells w a;
          let w = w\<lparr>sk_cells := (sk_cells w)(a \<mapsto> sk\<lparr>sk_revents := r\<rparr>)\<rparr>;
          Some (unlock_h C h w)
        })"

definition ofc_socket_impl_get_event ::
  "'h core_api \<Rightarrow> handle \<Rightarrow> 'h world \<Rightarrow> (u16 \<times> 'h world) option" where
  "ofc_socket_impl_get_event C h w =
     (case lock_h C h w of
        (None, w) \<Rightarrow> Some (0, w)
      | (Some a, w) \<Rightarrow> do {
          sk \<leftarrow> sk_cells w a;
          Some (sk_events sk, unlock_h C h w)
        })"

definition ofc_socket_impl_get_fd ::
  "'h core_api \<Rightarrow> handle \<Rightarrow> 'h world \<Rightarrow> (int \<times> 'h world) option" where
  "ofc_socket_impl_get_fd C h w =
     (case lock_h C h w of
        (None, w) \<Rightarrow> Some (-1, w)
      | (Some a, w) \<Rightarrow> do {
          sk \<leftarrow> sk_cells w a;
          Some (sk_socket sk, unlock_h C h w)
        })"

text \<open>The translation of \<open>ofc_socket_impl_test\<close>: poll bits to socket events.\<close>

definition events_of_poll :: "event_bits \<Rightarrow> u16 \<Rightarrow> u32" where
  "events_of_poll B r =
     (let e = 0;
          e = (if r AND POLLHUP \<noteq> 0 then e OR OFC_SOCKET_EVENT_CLOSE B else e);
          e = (if r AND POLLIN \<noteq> 0
               then e OR (OFC_SOCKET_EVENT_ACCEPT B OR OFC_SOCKET_EVENT_READ B) else e);
          e = (if r AND POLLERR \<noteq> 0 then e OR OFC_SOCKET_EVENT_ADDRESSCHANGE B else e);
          e = (if r AND POLLPRI \<noteq> 0 then e OR OFC_SOCKET_EVENT_QOS B else e);
          e = (if r AND (POLLRDBAND OR POLLWRBAND) \<noteq> 0 then e OR OFC_SOCKET_EVENT_QOB B else e)
      in if r AND POLLOUT \<noteq> 0 then e OR OFC_SOCKET_EVENT_WRITE B else e)"

definition ofc_socket_impl_test ::
  "'h core_api \<Rightarrow> event_bits \<Rightarrow> handle \<Rightarrow> 'h world \<Rightarrow> (u32 \<times> 'h world) option" where
  "ofc_socket_impl_test C B h w =
     (case lock_h C h w of
        (None, w) \<Rightarrow> Some (0, w)
      | (Some a, w) \<Rightarrow> do {
          sk \<leftarrow> sk_cells w a;
          Some (events_of_poll B (sk_revents sk), unlock_h C h w)
        })"

text \<open>
  The translation of \<open>ofc_socket_impl_enable\<close>: socket events to poll bits. The code collects
  them in an \<open>int\<close> and stores that in 16 bits; every bit fits.
\<close>

definition poll_of_events :: "event_bits \<Rightarrow> u32 \<Rightarrow> u16" where
  "poll_of_events B t =
     (let e = 0;
          e = (if t AND OFC_SOCKET_EVENT_CLOSE B \<noteq> 0 then e OR POLLHUP else e);
          e = (if t AND OFC_SOCKET_EVENT_ACCEPT B \<noteq> 0 then e OR POLLIN else e);
          e = (if t AND OFC_SOCKET_EVENT_ADDRESSCHANGE B \<noteq> 0 then e OR POLLERR else e);
          e = (if t AND OFC_SOCKET_EVENT_QOS B \<noteq> 0 then e OR POLLPRI else e);
          e = (if t AND OFC_SOCKET_EVENT_QOB B \<noteq> 0 then e OR (POLLRDBAND OR POLLWRBAND) else e);
          e = (if t AND OFC_SOCKET_EVENT_READ B \<noteq> 0 then e OR POLLIN else e)
      in if t AND OFC_SOCKET_EVENT_WRITE B \<noteq> 0 then e OR POLLOUT else e)"

definition ofc_socket_impl_enable ::
  "'h core_api \<Rightarrow> event_bits \<Rightarrow> handle \<Rightarrow> u32 \<Rightarrow> 'h world \<Rightarrow> (bool \<times> 'h world) option" where
  "ofc_socket_impl_enable C B h t w =
     (case lock_h C h w of
        (None, w) \<Rightarrow> Some (False, w)
      | (Some a, w) \<Rightarrow> do {
          sk \<leftarrow> sk_cells w a;
          let w = w\<lparr>sk_cells := (sk_cells w)(a \<mapsto> sk\<lparr>sk_events := poll_of_events B t\<rparr>)\<rparr>;
          Some (True, unlock_h C h w)
        })"

section \<open>What each operation does\<close>

definition sk_at :: "'h core_api \<Rightarrow> handle \<Rightarrow> 'h world \<Rightarrow> OFC_SOCKET_IMPL option" where
  "sk_at C h w = Option.bind (deref C h (core w)) (sk_cells w)"

text \<open>A dead handle, or the handle of a socket cell.\<close>

definition sk_usable :: "'h core_api \<Rightarrow> handle \<Rightarrow> 'h world \<Rightarrow> bool" where
  "sk_usable C h w \<longleftrightarrow> handle_laws C \<and> (deref C h (core w) = None \<or> sk_at C h w \<noteq> None)"

definition sk_write ::
  "'h core_api \<Rightarrow> handle \<Rightarrow> (OFC_SOCKET_IMPL \<Rightarrow> OFC_SOCKET_IMPL) \<Rightarrow> 'h world \<Rightarrow> 'h world" where
  "sk_write C h f w =
     (case deref C h (core w) of None \<Rightarrow> w
      | Some a \<Rightarrow> (case sk_cells w a of None \<Rightarrow> w
                  | Some sk \<Rightarrow> w\<lparr>sk_cells := (sk_cells w)(a \<mapsto> f sk)\<rparr>))"

lemma sk_usable_cases:
  assumes "sk_usable C h w"
  obtains (dead) "handle_laws C" and "deref C h (core w) = None"
  | (live) a sk where "handle_laws C" and "deref C h (core w) = Some a" and "sk_cells w a = Some sk"
  using assms unfolding sk_usable_def sk_at_def by (cases "deref C h (core w)") auto

text \<open>An operation that returns found its socket usable.\<close>

lemma returns_usable:
  assumes "handle_laws C"
  shows "ofc_socket_impl_enable C B h t w = Some y \<Longrightarrow> sk_usable C h w"
    and "ofc_socket_impl_set_event C h r w = Some v \<Longrightarrow> sk_usable C h w"
    and "ofc_socket_impl_test C B h w = Some z \<Longrightarrow> sk_usable C h w"
    and "ofc_socket_impl_get_event C h w = Some p \<Longrightarrow> sk_usable C h w"
    and "ofc_socket_impl_get_fd C h w = Some q \<Longrightarrow> sk_usable C h w"
  using assms
  by (auto simp: sk_usable_def sk_at_def ofc_socket_impl_enable_def ofc_socket_impl_set_event_def
      ofc_socket_impl_test_def ofc_socket_impl_get_event_def ofc_socket_impl_get_fd_def
      lock_h_eq split: option.splits elim!: bind_SomeE)

lemma get_fd_eq:
  assumes "sk_usable C h w"
  shows "ofc_socket_impl_get_fd C h w =
    Some (case sk_at C h w of None \<Rightarrow> -1 | Some sk \<Rightarrow> sk_socket sk, w)"
  using assms by (cases rule: sk_usable_cases)
    (simp_all add: ofc_socket_impl_get_fd_def lock_h_eq handle_lawsD(1) unlock_h_def
      unlock_after_lock sk_at_def)

lemma get_event_eq:
  assumes "sk_usable C h w"
  shows "ofc_socket_impl_get_event C h w =
    Some (case sk_at C h w of None \<Rightarrow> 0 | Some sk \<Rightarrow> sk_events sk, w)"
  using assms by (cases rule: sk_usable_cases)
    (simp_all add: ofc_socket_impl_get_event_def lock_h_eq handle_lawsD(1) unlock_h_def
      unlock_after_lock sk_at_def)

lemma set_event_eq:
  assumes "sk_usable C h w"
  shows "ofc_socket_impl_set_event C h r w = Some (sk_write C h (sk_revents_update (\<lambda>_. r)) w)"
  using assms by (cases rule: sk_usable_cases)
    (simp_all add: ofc_socket_impl_set_event_def lock_h_eq handle_lawsD(1) unlock_h_def
      unlock_after_lock sk_write_def)

lemma test_eq:
  assumes "sk_usable C h w"
  shows "ofc_socket_impl_test C B h w =
    Some (case sk_at C h w of None \<Rightarrow> 0 | Some sk \<Rightarrow> events_of_poll B (sk_revents sk), w)"
  using assms by (cases rule: sk_usable_cases)
    (simp_all add: ofc_socket_impl_test_def lock_h_eq handle_lawsD(1) unlock_h_def
      unlock_after_lock sk_at_def)

lemma enable_eq:
  assumes "sk_usable C h w"
  shows "ofc_socket_impl_enable C B h t w =
    Some (deref C h (core w) \<noteq> None, sk_write C h (sk_events_update (\<lambda>_. poll_of_events B t)) w)"
  using assms by (cases rule: sk_usable_cases)
    (simp_all add: ofc_socket_impl_enable_def lock_h_eq handle_lawsD(1) unlock_h_def
      unlock_after_lock sk_write_def)

lemma sk_write_frame [frame]:
  "core (sk_write C h f w) = core w" "pipes (sk_write C h f w) = pipes w"
  "fds (sk_write C h f w) = fds w" "ws_cells (sk_write C h f w) = ws_cells w"
  "dws_cells (sk_write C h f w) = dws_cells w" "ev_cells (sk_write C h f w) = ev_cells w"
  "th_cells (sk_write C h f w) = th_cells w" "calls (sk_write C h f w) = calls w"
  by (simp_all add: sk_write_def split: option.split)

lemma sk_at_write:
  assumes "handle_laws C"
  shows "sk_at C h' (sk_write C h f w) =
    (if h' = h then map_option f (sk_at C h w) else sk_at C h' w)"
proof (cases "h' = h")
  case True
  then show ?thesis by (simp add: sk_at_def sk_write_def split: option.split)
next
  case False
  then have "deref C h (core w) = Some a \<Longrightarrow> deref C h' (core w) \<noteq> Some a" for a
    using handle_lawsD(5) [OF assms] by blast
  with False show ?thesis
    by (cases "deref C h' (core w)") (auto simp: sk_at_def sk_write_def split: option.split)
qed

section \<open>The two translations against each other\<close>

lemma disjoint_bitsD:
  assumes "disjoint_bits B" and "i < 7" and "j < 7"
  shows "bit_list B ! i AND bit_list B ! j \<noteq> 0 \<longleftrightarrow> i = j"
proof
  assume "bit_list B ! i AND bit_list B ! j \<noteq> 0"
  with assms show "i = j" unfolding disjoint_bits_def by blast
next
  assume "i = j"
  moreover have "bit_list B ! i \<in> set (bit_list B)"
    using assms(2) by (intro nth_mem) (simp add: bit_list_def)
  ultimately show "bit_list B ! i AND bit_list B ! j \<noteq> 0"
    using assms(1) unfolding disjoint_bits_def by auto
qed

end
