(* ===== verification/Waitset_Darwin.thy ===== *)
theory Waitset_Darwin
  imports Event_Darwin Socket_Events
begin

text \<open>
  The scheduler's wait (\<open>src/waitset_darwin.c\<close>): \<open>PollEvent\<close>, \<open>ofc_waitset_wait_impl\<close> with its
  three phases (purge the pipe, scan the handles, block in \<open>poll\<close>), and the operations that
  attach handles to a set and print it.

  Parameters: \<open>E\<close>, the event operations the loop calls (of_core's \<open>ofc_event_test\<close> and its
  siblings); \<open>Q\<close>, the queue of_core gives for the local list of awaited events; \<open>poll\<close>, the
  system call, which also carries what the other threads do while this one is blocked.
\<close>

section \<open>The local event queue\<close>

record 'q queue_api =
  q_create :: 'q
  q_enqueue :: "'q \<Rightarrow> EVENT_ELEMENT \<Rightarrow> 'q"
  q_dequeue :: "'q \<Rightarrow> EVENT_ELEMENT option \<times> 'q"
  q_walk :: "'q \<Rightarrow> EVENT_ELEMENT list"

definition fifo_laws :: "'q queue_api \<Rightarrow> bool" where
  "fifo_laws Q \<longleftrightarrow> q_walk Q (q_create Q) = [] \<and>
     (\<forall>q e. q_walk Q (q_enqueue Q q e) = q_walk Q q @ [e]) \<and>
     (\<forall>q. q_walk Q q = [] \<longrightarrow> fst (q_dequeue Q q) = None) \<and>
     (\<forall>q e es. q_walk Q q = e # es \<longrightarrow>
        fst (q_dequeue Q q) = Some e \<and> q_walk Q (snd (q_dequeue Q q)) = es)"

section \<open>PollEvent\<close>

partial_function (option) PollEvent ::
  "'h world event_api \<Rightarrow> int \<Rightarrow> EVENT_ELEMENT list \<Rightarrow> 'h world \<Rightarrow> (handle \<times> 'h world) option" where
  "PollEvent E f es w =
     (case read_handle f w of
        None \<Rightarrow> None
      | Some r \<Rightarrow>
          (case fst r of
             None \<Rightarrow> Some (OFC_HANDLE_NULL, snd r)
           | Some ev \<Rightarrow>
               if ev = OFC_HANDLE_NULL then Some (OFC_HANDLE_NULL, snd r)
               else
                 (case List.find (\<lambda>e. hEvent e = ev) es of
                    None \<Rightarrow> PollEvent E f es (snd r)
                  | Some e \<Rightarrow>
                      (case consume_event E ev (snd r) of
                         None \<Rightarrow> None
                       | Some c \<Rightarrow>
                           if fst c \<and> hAssoc e \<noteq> OFC_HANDLE_NULL then Some (hAssoc e, snd c)
                           else PollEvent E f es (snd c)))))"

section \<open>The wait\<close>

record 'q scan_state =
  triggered_event :: handle
  timer_event :: handle
  leastWait :: int
  darwin_handle_list :: "pollfd list"
  ofc_handle_list :: "handle list"
  eventQueue :: 'q

definition await_event :: "'q queue_api \<Rightarrow> handle \<Rightarrow> handle \<Rightarrow> 'q scan_state \<Rightarrow> 'q scan_state" where
  "await_event Q ev assoc st =
     st\<lparr>eventQueue := q_enqueue Q (eventQueue st) \<lparr>hEvent = ev, hAssoc = assoc\<rparr>\<rparr>"

definition add_pollfd :: "int \<Rightarrow> u16 \<Rightarrow> handle \<Rightarrow> 'q scan_state \<Rightarrow> 'q scan_state" where
  "add_pollfd f ev h st =
     st\<lparr>darwin_handle_list := darwin_handle_list st @ [\<lparr>fd = f, events = ev, revents = 0\<rparr>],
        ofc_handle_list := ofc_handle_list st @ [h]\<rparr>"

text \<open>One pass through the \<open>switch\<close>.\<close>

definition scan_handle ::
  "'h core_api \<Rightarrow> 'q queue_api \<Rightarrow> 'h world event_api \<Rightarrow> handle \<Rightarrow> 'q scan_state \<Rightarrow> 'h world \<Rightarrow>
   ('q scan_state \<times> 'h world) option" where
  "scan_handle C Q E h st w =
     (case ofc_handle_get_type C h (core w) of
        OFC_HANDLE_WAIT_QUEUE \<Rightarrow>
          (let ev = ofc_waitq_get_event_handle C h (core w) in
           Some (if \<not> ofc_waitq_empty C h (core w) then st\<lparr>triggered_event := h\<rparr>
                 else await_event Q ev h st, w))
      | OFC_HANDLE_FILE \<Rightarrow>
          Some (if OFC_FS_DARWIN C \<and> OfcFileGetFSType C h (core w) = OFC_FST_DARWIN
                then add_pollfd (OfcFSDarwinGetFD C (OfcFileGetFSHandle C h (core w)) (core w)) 0 h st
                else st, w)
      | OFC_HANDLE_SOCKET \<Rightarrow> do {
          let d = ofc_socket_get_impl C h (core w);
          (f, w) \<leftarrow> ofc_socket_impl_get_fd C d w;
          (ev, w) \<leftarrow> ofc_socket_impl_get_event C d w;
          Some (add_pollfd f ev h st, w)
        }
      | OFC_HANDLE_FSDARWIN_OVERLAPPED \<Rightarrow>
          (if OFC_FS_DARWIN C then do {
             let ev = OfcFSDarwinGetOverlappedEvent C h (core w);
             (t, w) \<leftarrow> ev_test E ev w;
             Some (if t then st\<lparr>triggered_event := h\<rparr> else await_event Q ev h st, w)
           } else Some (st, w))
      | OFC_HANDLE_FSSMB_OVERLAPPED \<Rightarrow>
          (let q = OfcFileGetOverlappedWaitQ C h (core w);
               ev = ofc_waitq_get_event_handle C q (core w) in
           Some (if \<not> ofc_waitq_empty C q (core w) then st\<lparr>triggered_event := h\<rparr>
                 else await_event Q ev h st, w))
      | OFC_HANDLE_EVENT \<Rightarrow> do {
          (t, w) \<leftarrow> consume_event E h w;
          Some (if t then st\<lparr>triggered_event := h\<rparr> else await_event Q h h st, w)
        }
      | OFC_HANDLE_TIMER \<Rightarrow>
          (let wait_time = ofc_timer_get_wait_time C h (core w) in
           Some (if wait_time = 0 then st\<lparr>triggered_event := h\<rparr>
                 else if wait_time < leastWait st
                      then st\<lparr>leastWait := wait_time, timer_event := h\<rparr> else st, w))
      | _ \<Rightarrow> Some (st, w))"

fun scan_handles ::
  "'h core_api \<Rightarrow> 'q queue_api \<Rightarrow> 'h world event_api \<Rightarrow> handle list \<Rightarrow> 'q scan_state \<Rightarrow>
   'h world \<Rightarrow> ('q scan_state \<times> 'h world) option" where
  "scan_handles C Q E [] st w = Some (st, w)"
| "scan_handles C Q E (h # hs) st w =
     (if triggered_event st \<noteq> OFC_HANDLE_NULL then Some (st, w)
      else do {
        (st, w) \<leftarrow> scan_handle C Q E h st w;
        scan_handles C Q E hs st w
      })"

definition scan_start :: "'h core_api \<Rightarrow> 'q queue_api \<Rightarrow> int \<Rightarrow> 'q scan_state" where
  "scan_start C Q f =
     \<lparr>triggered_event = OFC_HANDLE_NULL, timer_event = OFC_HANDLE_NULL,
      leastWait = OFC_MAX_SCHED_WAIT C,
      darwin_handle_list = [\<lparr>fd = f, events = POLLIN, revents = 0\<rparr>],
      ofc_handle_list = [OFC_HANDLE_NULL], eventQueue = q_create Q\<rparr>"

text \<open>
  \<open>poll\<close> is given the list, the timeout and the world, and answers with its return value,
  the list with \<open>revents\<close> filled in and the world as the other threads left it.
\<close>

type_synonym 'h poll_call =
  "pollfd list \<Rightarrow> int \<Rightarrow> 'h world \<Rightarrow> (int \<times> pollfd list \<times> 'h world) option"

definition await_poll ::
  "'h core_api \<Rightarrow> 'q queue_api \<Rightarrow> 'h world event_api \<Rightarrow> 'h poll_call \<Rightarrow> addr \<Rightarrow>
   'q scan_state \<Rightarrow> 'h world \<Rightarrow> (handle \<times> 'h world) option" where
  "await_poll C Q E poll d st w = do {
     (poll_count, ps, w) \<leftarrow> poll (darwin_handle_list st) (leastWait st) w;
     if poll_count = 0 \<and> timer_event st \<noteq> OFC_HANDLE_NULL then Some (timer_event st, w)
     else if 0 < poll_count then do {
       let i = first_index (\<lambda>p. revents p \<noteq> 0) ps;
       if i = 0 then do {
         D \<leftarrow> dws_cells w d;
         PollEvent E (pipe_rd D) (q_walk Q (eventQueue st)) w
       }
       else if i < length (darwin_handle_list st) then do {
         w \<leftarrow> ofc_socket_impl_set_event C (ofc_socket_get_impl C (ofc_handle_list st ! i) (core w))
                (revents (ps ! i)) w;
         Some (if revents (ps ! i) \<noteq> 0 then ofc_handle_list st ! i else OFC_HANDLE_NULL, w)
       }
       else Some (OFC_HANDLE_NULL, w)
     }
     else Some (OFC_HANDLE_NULL, w)
   }"

definition take_element :: "'q queue_api \<Rightarrow> 'q \<Rightarrow> (EVENT_ELEMENT option \<times> 'q) option" where
  "take_element Q q = Some (q_dequeue Q q)"

definition ofc_waitset_wait_impl ::
  "'h core_api \<Rightarrow> 'q queue_api \<Rightarrow> 'h world event_api \<Rightarrow> 'h poll_call \<Rightarrow> handle \<Rightarrow>
   'h world \<Rightarrow> (handle \<times> 'h world) option" where
  "ofc_waitset_wait_impl C Q E poll h w =
     (case lock_h C h w of
        (None, w) \<Rightarrow> Some (OFC_HANDLE_NULL, w)
      | (Some a, w) \<Rightarrow> do {
          ws \<leftarrow> ws_cells w a;
          d \<leftarrow> impl ws;
          D \<leftarrow> dws_cells w d;
          w \<leftarrow> purge_pipe (pipe_rd D) w;
          (st, w) \<leftarrow> scan_handles C Q E (ofc_queue_walk C (hHandleQueue ws) (core w))
                      (scan_start C Q (pipe_rd D)) w;
          let w = unlock_h C h w;
          (r, w) \<leftarrow> (if triggered_event st = OFC_HANDLE_NULL
                     then await_poll C Q E poll d st w else Some (triggered_event st, w));
          q \<leftarrow> drain (take_element Q) (eventQueue st);
          Some (r, w)
        })"

section \<open>Attaching handles\<close>

definition set_app :: "'h core_api \<Rightarrow> handle \<Rightarrow> handle \<Rightarrow> handle \<Rightarrow> 'h world \<Rightarrow> 'h world" where
  "set_app C h app ws w = w\<lparr>core := ofc_handle_set_app C h app ws (core w)\<rparr>"

definition ofc_waitset_set_assoc_impl ::
  "'h core_api \<Rightarrow> handle \<Rightarrow> handle \<Rightarrow> handle \<Rightarrow> 'h world \<Rightarrow> 'h world" where
  "ofc_waitset_set_assoc_impl C ev app ws w =
     (case ofc_handle_get_type C ev (core w) of
        OFC_HANDLE_WAIT_QUEUE \<Rightarrow> set_app C (ofc_waitq_get_event_handle C ev (core w)) app ws w
      | OFC_HANDLE_FSDARWIN_OVERLAPPED \<Rightarrow>
          (if OFC_FS_DARWIN C
           then set_app C (OfcFSDarwinGetOverlappedEvent C ev (core w)) app ws w else w)
      | OFC_HANDLE_FSSMB_OVERLAPPED \<Rightarrow> set_app C (OfcFileGetOverlappedEvent C ev (core w)) app ws w
      | _ \<Rightarrow> w)"

text \<open>\<open>ofc_event_test(h)\<close> and, when it holds, a notification of the set.\<close>

definition signal_if_set ::
  "'h core_api \<Rightarrow> 'h world event_api \<Rightarrow> handle \<Rightarrow> handle \<Rightarrow> 'h world \<Rightarrow> 'h world option" where
  "signal_if_set C E ws ev w = do {
     (t, w) \<leftarrow> ev_test E ev w;
     if t then ofc_waitset_signal_impl C ws ev w else Some w
   }"

definition ofc_waitset_add_impl ::
  "'h core_api \<Rightarrow> 'h world event_api \<Rightarrow> handle \<Rightarrow> handle \<Rightarrow> handle \<Rightarrow> 'h world \<Rightarrow> 'h world option" where
  "ofc_waitset_add_impl C E ws app ev w =
     (case ofc_handle_get_type C ev (core w) of
        OFC_HANDLE_WAIT_QUEUE \<Rightarrow>
          (let assoc = ofc_waitq_get_event_handle C ev (core w);
               w = set_app C assoc app ws w in
           if \<not> ofc_waitq_empty C ev (core w) then ofc_waitset_signal_impl C ws assoc w else Some w)
      | OFC_HANDLE_EVENT \<Rightarrow> signal_if_set C E ws ev (set_app C ev app ws w)
      | OFC_HANDLE_FSDARWIN_OVERLAPPED \<Rightarrow>
          (if OFC_FS_DARWIN C then
             (let assoc = OfcFSDarwinGetOverlappedEvent C ev (core w) in
              signal_if_set C E ws assoc (set_app C assoc app ws w))
           else Some w)
      | OFC_HANDLE_FSSMB_OVERLAPPED \<Rightarrow>
          (let assoc = OfcFileGetOverlappedEvent C ev (core w) in
           signal_if_set C E ws assoc (set_app C assoc app ws w))
      | _ \<Rightarrow> Some w)"

section \<open>Printing a set\<close>

datatype debug_line =
    Dbg_wait_queue string | Dbg_darwin_file | Dbg_darwin_socket | Dbg_darwin_overlapped string
  | Dbg_cifs_overlapped string | Dbg_event string | Dbg_timer int

definition debug_handle ::
  "'h core_api \<Rightarrow> 'h world event_api \<Rightarrow> handle \<Rightarrow> 'h world \<Rightarrow> (debug_line list \<times> 'h world) option" where
  "debug_handle C E h w =
     (case ofc_handle_get_type C h (core w) of
        OFC_HANDLE_WAIT_QUEUE \<Rightarrow>
          Some ([Dbg_wait_queue (if ofc_waitq_empty C h (core w) then ''empty'' else ''not empty'')], w)
      | OFC_HANDLE_FILE \<Rightarrow>
          Some (if OFC_FS_DARWIN C \<and> OfcFileGetFSType C h (core w) = OFC_FST_DARWIN
                then [Dbg_darwin_file] else [], w)
      | OFC_HANDLE_SOCKET \<Rightarrow> Some ([Dbg_darwin_socket], w)
      | OFC_HANDLE_FSDARWIN_OVERLAPPED \<Rightarrow>
          (if OFC_FS_DARWIN C then do {
             (t, w) \<leftarrow> ev_test E (OfcFSDarwinGetOverlappedEvent C h (core w)) w;
             Some ([Dbg_darwin_overlapped (if t then ''triggered'' else ''not triggered'')], w)
           } else Some ([], w))
      | OFC_HANDLE_FSSMB_OVERLAPPED \<Rightarrow>
          (let q = OfcFileGetOverlappedWaitQ C h (core w) in
           Some ([Dbg_cifs_overlapped
                    (if ofc_waitq_empty C q (core w) then ''triggered'' else ''not triggered'')], w))
      | OFC_HANDLE_EVENT \<Rightarrow> do {
          (t, w) \<leftarrow> ev_test E h w;
          Some ([Dbg_event (if t then ''triggered'' else ''not triggered'')], w)
        }
      | OFC_HANDLE_TIMER \<Rightarrow> Some ([Dbg_timer (ofc_timer_get_wait_time C h (core w))], w)
      | _ \<Rightarrow> Some ([], w))"

fun debug_handles ::
  "'h core_api \<Rightarrow> 'h world event_api \<Rightarrow> handle list \<Rightarrow> 'h world \<Rightarrow>
   (debug_line list \<times> 'h world) option" where
  "debug_handles C E [] w = Some ([], w)"
| "debug_handles C E (h # hs) w = do {
     (l, w) \<leftarrow> debug_handle C E h w;
     (ls, w) \<leftarrow> debug_handles C E hs w;
     Some (l @ ls, w)
   }"

definition ofc_waitset_debug ::
  "'h core_api \<Rightarrow> 'h world event_api \<Rightarrow> handle \<Rightarrow> 'h world \<Rightarrow> (debug_line list \<times> 'h world) option" where
  "ofc_waitset_debug C E h w =
     (case lock_h C h w of
        (None, w) \<Rightarrow> Some ([], w)
      | (Some a, w) \<Rightarrow> do {
          ws \<leftarrow> ws_cells w a;
          (ls, w) \<leftarrow> debug_handles C E (ofc_queue_walk C (hHandleQueue ws) (core w)) w;
          Some (ls, unlock_h C h w)
        })"

end
