(* ===== verification/Waitset_Facts.thy ===== *)
theory Waitset_Facts
  imports Waitset_Darwin
begin

text \<open>
  What the wait does, phase by phase: \<open>PollEvent\<close> against a reference function on the
  contents of the pipe, the scan against the first ready handle of the queue, and the
  tables the scan builds for \<open>poll\<close> in closed form.
\<close>

section \<open>The reference for PollEvent\<close>

text \<open>
  What reading the queued notifications amounts to, for the elements \<open>es\<close> and the flags \<open>f\<close>:
  the handle returned, the event that was consumed, and the notifications left.
\<close>

fun poll_outcome ::
  "EVENT_ELEMENT list \<Rightarrow> (handle \<Rightarrow> bool) \<Rightarrow> handle list \<Rightarrow> handle \<times> handle option \<times> handle list" where
  "poll_outcome es f [] = (OFC_HANDLE_NULL, None, [])"
| "poll_outcome es f (ev # buf) =
     (if ev = OFC_HANDLE_NULL then (OFC_HANDLE_NULL, None, buf)
      else case List.find (\<lambda>e. hEvent e = ev) es of
             None \<Rightarrow> poll_outcome es f buf
           | Some e \<Rightarrow> if f ev then (hAssoc e, Some ev, buf) else poll_outcome es f buf)"

text \<open>A client of an event implementation whose events live apart from the pipes.\<close>

locale poll_client = event_ops E usable is_set kind live rest
  for E :: "'h world event_api" and usable :: "handle \<Rightarrow> 'h world \<Rightarrow> bool"
    and is_set :: "handle \<Rightarrow> 'h world \<Rightarrow> bool" and kind :: "handle \<Rightarrow> 'h world \<Rightarrow> event_type"
    and live :: "handle \<Rightarrow> 'h world \<Rightarrow> bool" and rest :: "'h world \<Rightarrow> 'r" +
  assumes usable_pipes: "usable h (w\<lparr>pipes := q\<rparr>) = usable h w"
    and is_set_pipes: "is_set h (w\<lparr>pipes := q\<rparr>) = is_set h w"
begin

lemma PollEvent_outcome:
  assumes "nb_pipe D w = Some k" and "pipes w k = Some p"
    and "\<forall>e \<in> set es. usable (hEvent e) w \<and> hAssoc e \<noteq> OFC_HANDLE_NULL"
    and "poll_outcome es (\<lambda>h. is_set h w) (pbuf p) = (r, c, buf)"
  shows "PollEvent E (pipe_rd D) es w =
    (let w' = w\<lparr>pipes := (pipes w)(k \<mapsto> p\<lparr>pbuf := buf\<rparr>)\<rparr> in
     case c of None \<Rightarrow> Some (r, w')
     | Some ev \<Rightarrow> map_option (\<lambda>x. (r, snd x)) (consume_event E ev w'))"
  using assms
proof (induction "pbuf p" arbitrary: w p)
  case Nil
  then have "p\<lparr>pbuf := []\<rparr> = p" by (cases p) simp
  with Nil show ?case
    by (auto simp: PollEvent.simps [of E "pipe_rd D"] read_nb_pipe fun_upd_idem)
next
  case (Cons ev bs)
  let ?p = "p\<lparr>pbuf := bs\<rparr>"
  let ?w = "w\<lparr>pipes := (pipes w)(k \<mapsto> ?p)\<rparr>"
  have nb: "nb_pipe D ?w = Some k" and pk: "pipes ?w k = Some ?p"
    using Cons.prems(1) nb_pipe_pipe [OF Cons.prems(1)] Cons.prems(2) by simp_all
  have rd: "read_handle (pipe_rd D) w = Some (Some ev, ?w)"
    using Cons.prems(1,2) Cons.hyps(2) [symmetric] by (simp add: read_nb_pipe)
  have us: "\<forall>e \<in> set es. usable (hEvent e) ?w \<and> hAssoc e \<noteq> OFC_HANDLE_NULL"
    using Cons.prems(3) by (simp add: usable_pipes)
  have IH: "PollEvent E (pipe_rd D) es ?w =
     (let w' = w\<lparr>pipes := (pipes w)(k \<mapsto> p\<lparr>pbuf := buf\<rparr>)\<rparr> in
      case c of None \<Rightarrow> Some (r, w')
      | Some ev \<Rightarrow> map_option (\<lambda>x. (r, snd x)) (consume_event E ev w'))"
    if "poll_outcome es (\<lambda>h. is_set h w) bs = (r, c, buf)"
    using Cons.hyps(1) [OF _ nb pk us] that by (simp add: is_set_pipes)
  show ?case
  proof (cases "List.find (\<lambda>e. hEvent e = ev) es")
    case None
    with Cons.prems(4) Cons.hyps(2) [symmetric] rd IH show ?thesis
      by (auto simp: PollEvent.simps [of E "pipe_rd D" es w] split: if_splits)
  next
    case (Some e)
    then have e: "e \<in> set es" "hEvent e = ev" by (auto dest: find_SomeD)
    with us have u: "usable ev ?w" "hAssoc e \<noteq> OFC_HANDLE_NULL" by auto
    show ?thesis
    proof (cases "is_set ev w")
      case True
      from consume_law [OF u(1)] True obtain v where "consume_event E ev ?w = Some (True, v)"
        by (auto simp: is_set_pipes)
      with Some True u Cons.prems(4) Cons.hyps(2) [symmetric] rd show ?thesis
        by (auto simp: PollEvent.simps [of E "pipe_rd D" es w] split: if_splits)
    next
      case False
      then have "consume_event E ev ?w = Some (False, ?w)"
        using consume_unset [OF u(1)] by (simp add: is_set_pipes)
      with Some False Cons.prems(4) Cons.hyps(2) [symmetric] rd IH show ?thesis
        by (auto simp: PollEvent.simps [of E "pipe_rd D" es w] split: if_splits)
    qed
  qed
qed

end

lemma ev_usable_pipes [simp]: "ev_usable C h (w\<lparr>pipes := q\<rparr>) = ev_usable C h w"
  by (simp add: ev_usable_def ev_at_def)

lemma ev_signalled_pipes [simp]: "ev_signalled C h (w\<lparr>pipes := q\<rparr>) = ev_signalled C h w"
  by (simp add: ev_signalled_def ev_at_def)

lemma ev_kind_pipes [simp]: "ev_kind C h (w\<lparr>pipes := q\<rparr>) = ev_kind C h w"
  by (simp add: ev_kind_def ev_at_def)

interpretation darwin_poll: poll_client "event_impl C" "ev_usable C" "ev_signalled C" "ev_kind C"
  "\<lambda>h w. ev_at C h w \<noteq> None" without_events for C
  by unfold_locales simp_all

text \<open>Consuming a Darwin event: the flag, and the reset of an auto-reset event.\<close>

definition consumed :: "'h core_api \<Rightarrow> handle \<Rightarrow> 'h world \<Rightarrow> 'h world" where
  "consumed C h w = (if ev_kind C h w = OFC_EVENT_AUTO then ev_write C h False w else w)"

lemma consume_eq:
  "ev_usable C h w \<Longrightarrow> consume_event (event_impl C) h w =
     Some (ev_signalled C h w, if ev_signalled C h w then consumed C h w else w)"
  by (simp add: consume_event_def event_test_eq event_get_type_eq event_reset_eq consumed_def)

lemma poll_outcome_cases:
  "poll_outcome es f buf = (r, c, buf') \<Longrightarrow>
     (c = None \<and> r = OFC_HANDLE_NULL) \<or>
     (\<exists>e \<in> set es. c = Some (hEvent e) \<and> r = hAssoc e \<and> f (hEvent e) \<and> hEvent e \<in> set buf)"
  by (induction es f buf rule: poll_outcome.induct)
    (auto split: if_splits option.splits dest: find_SomeD)

text \<open>
  Nothing is overlooked: when a notification of an awaited event that is set precedes every
  wake-up in the pipe, some awaited event is returned.
\<close>

lemma poll_outcome_fires:
  assumes "e \<in> set es" and "hEvent e \<in> set (takeWhile (\<lambda>h. h \<noteq> OFC_HANDLE_NULL) buf)"
    and "f (hEvent e)"
  shows "\<exists>e' \<in> set es. fst (poll_outcome es f buf) = hAssoc e' \<and> f (hEvent e') \<and>
           fst (snd (poll_outcome es f buf)) = Some (hEvent e')"
  using assms
proof (induction es f buf rule: poll_outcome.induct)
  case (2 es f ev buf)
  then show ?case
    by (auto split: if_splits option.splits simp: find_None_iff)
      (metis (mono_tags, lifting) find_SomeD)+
qed simp

section \<open>The scan\<close>

definition handle_ready :: "'h core_api \<Rightarrow> 'h world \<Rightarrow> handle \<Rightarrow> bool" where
  "handle_ready C w h =
     (case ofc_handle_get_type C h (core w) of
        OFC_HANDLE_WAIT_QUEUE \<Rightarrow> \<not> ofc_waitq_empty C h (core w)
      | OFC_HANDLE_FSDARWIN_OVERLAPPED \<Rightarrow>
          OFC_FS_DARWIN C \<and> ev_signalled C (OfcFSDarwinGetOverlappedEvent C h (core w)) w
      | OFC_HANDLE_FSSMB_OVERLAPPED \<Rightarrow>
          \<not> ofc_waitq_empty C (OfcFileGetOverlappedWaitQ C h (core w)) (core w)
      | OFC_HANDLE_EVENT \<Rightarrow> ev_signalled C h w
      | OFC_HANDLE_TIMER \<Rightarrow> ofc_timer_get_wait_time C h (core w) = 0
      | _ \<Rightarrow> False)"

text \<open>The cells a handle leads to are there: what the scan needs in order not to fault.\<close>

definition scannable :: "'h core_api \<Rightarrow> 'h world \<Rightarrow> handle \<Rightarrow> bool" where
  "scannable C w h =
     (handle_laws C \<and>
      (case ofc_handle_get_type C h (core w) of
         OFC_HANDLE_FSDARWIN_OVERLAPPED \<Rightarrow>
           ev_usable C (OfcFSDarwinGetOverlappedEvent C h (core w)) w
       | OFC_HANDLE_SOCKET \<Rightarrow> sk_usable C (ofc_socket_get_impl C h (core w)) w
       | OFC_HANDLE_EVENT \<Rightarrow> ev_usable C h w
       | _ \<Rightarrow> True))"

definition awaited :: "'h core_api \<Rightarrow> 'h world \<Rightarrow> handle \<Rightarrow> EVENT_ELEMENT list" where
  "awaited C w h =
     (case ofc_handle_get_type C h (core w) of
        OFC_HANDLE_WAIT_QUEUE \<Rightarrow> [\<lparr>hEvent = ofc_waitq_get_event_handle C h (core w), hAssoc = h\<rparr>]
      | OFC_HANDLE_FSDARWIN_OVERLAPPED \<Rightarrow>
          (if OFC_FS_DARWIN C
           then [\<lparr>hEvent = OfcFSDarwinGetOverlappedEvent C h (core w), hAssoc = h\<rparr>] else [])
      | OFC_HANDLE_FSSMB_OVERLAPPED \<Rightarrow>
          [\<lparr>hEvent = ofc_waitq_get_event_handle C (OfcFileGetOverlappedWaitQ C h (core w)) (core w),
            hAssoc = h\<rparr>]
      | OFC_HANDLE_EVENT \<Rightarrow> [\<lparr>hEvent = h, hAssoc = h\<rparr>]
      | _ \<Rightarrow> [])"

definition polled :: "'h core_api \<Rightarrow> 'h world \<Rightarrow> handle \<Rightarrow> pollfd list" where
  "polled C w h =
     (case ofc_handle_get_type C h (core w) of
        OFC_HANDLE_FILE \<Rightarrow>
          (if OFC_FS_DARWIN C \<and> OfcFileGetFSType C h (core w) = OFC_FST_DARWIN
           then [\<lparr>fd = OfcFSDarwinGetFD C (OfcFileGetFSHandle C h (core w)) (core w), events = 0,
                  revents = 0\<rparr>] else [])
      | OFC_HANDLE_SOCKET \<Rightarrow>
          (case sk_at C (ofc_socket_get_impl C h (core w)) w of
             None \<Rightarrow> [\<lparr>fd = -1, events = 0, revents = 0\<rparr>]
           | Some sk \<Rightarrow> [\<lparr>fd = sk_socket sk, events = sk_events sk, revents = 0\<rparr>])
      | _ \<Rightarrow> [])"

definition timed :: "'h core_api \<Rightarrow> 'h world \<Rightarrow> handle \<Rightarrow> bool" where
  "timed C w h \<longleftrightarrow> ofc_handle_get_type C h (core w) = OFC_HANDLE_TIMER"

text \<open>What one handle that is not ready adds to the tables.\<close>

definition note_handle ::
  "'h core_api \<Rightarrow> 'q queue_api \<Rightarrow> 'h world \<Rightarrow> handle \<Rightarrow> 'q scan_state \<Rightarrow> 'q scan_state" where
  "note_handle C Q w h st =
     (let t = ofc_timer_get_wait_time C h (core w);
          earlier = timed C w h \<and> t < leastWait st in
      st\<lparr>timer_event := (if earlier then h else timer_event st),
         leastWait := (if earlier then t else leastWait st),
         darwin_handle_list := darwin_handle_list st @ polled C w h,
         ofc_handle_list := ofc_handle_list st @ map (\<lambda>_. h) (polled C w h),
         eventQueue := fold (\<lambda>e q. q_enqueue Q q e) (awaited C w h) (eventQueue st)\<rparr>)"

lemma scan_handle_waiting:
  assumes "scannable C w h" and "\<not> handle_ready C w h"
  shows "scan_handle C Q (event_impl C) h st w = Some (note_handle C Q w h st, w)"
  using assms
  by (cases "ofc_handle_get_type C h (core w)")
    (auto simp: scannable_def handle_ready_def scan_handle_def note_handle_def polled_def awaited_def
      timed_def await_event_def add_pollfd_def consume_eq event_test_eq get_fd_eq get_event_eq
      Let_def split: option.split)

text \<open>A ready handle is taken; only an event is consumed by that.\<close>

definition taken :: "'h core_api \<Rightarrow> 'h world \<Rightarrow> handle \<Rightarrow> 'h world" where
  "taken C w h =
     (if ofc_handle_get_type C h (core w) = OFC_HANDLE_EVENT then consumed C h w else w)"

lemma scan_handle_ready:
  assumes "scannable C w h" and "handle_ready C w h"
  shows "scan_handle C Q (event_impl C) h st w = Some (st\<lparr>triggered_event := h\<rparr>, taken C w h)"
  using assms
  by (cases "ofc_handle_get_type C h (core w)")
    (auto simp: scannable_def handle_ready_def scan_handle_def taken_def consume_eq event_test_eq
      Let_def)

lemma note_handle_triggered [simp]:
  "triggered_event (note_handle C Q w h st) = triggered_event st"
  by (simp add: note_handle_def Let_def)

lemma scan_handles_waiting:
  assumes "\<forall>h \<in> set hs. scannable C w h \<and> \<not> handle_ready C w h"
    and "triggered_event st = OFC_HANDLE_NULL"
  shows "scan_handles C Q (event_impl C) hs st w = Some (fold (note_handle C Q w) hs st, w)"
  using assms by (induction hs arbitrary: st) (simp_all add: scan_handle_waiting)

lemma scan_handles_ready:
  assumes "\<forall>h \<in> set hs. scannable C w h" and "triggered_event st = OFC_HANDLE_NULL"
    and "List.find (handle_ready C w) hs = Some h" and "OFC_HANDLE_NULL \<notin> set hs"
  shows "\<exists>st'. scan_handles C Q (event_impl C) hs st w = Some (st', taken C w h) \<and>
           triggered_event st' = h"
  using assms
proof (induction hs arbitrary: st)
  case (Cons x hs)
  show ?case
  proof (cases "handle_ready C w x")
    case True
    with Cons.prems have "x = h" "h \<noteq> OFC_HANDLE_NULL" by auto
    with Cons.prems True show ?thesis by (cases hs) (auto simp: scan_handle_ready)
  next
    case False
    with Cons.prems have "List.find (handle_ready C w) hs = Some h" "\<forall>h \<in> set hs. scannable C w h"
      "OFC_HANDLE_NULL \<notin> set hs" "triggered_event (note_handle C Q w x st) = OFC_HANDLE_NULL" by auto
    from Cons.IH [OF this(2,4,1,3)] False Cons.prems show ?thesis by (simp add: scan_handle_waiting)
  qed
qed simp

section \<open>The tables the scan builds\<close>

lemma note_lists:
  "darwin_handle_list (fold (note_handle C Q w) hs st) =
     darwin_handle_list st @ concat (map (polled C w) hs)"
  "ofc_handle_list (fold (note_handle C Q w) hs st) =
     ofc_handle_list st @ concat (map (\<lambda>h. map (\<lambda>_. h) (polled C w h)) hs)"
  by (induction hs arbitrary: st) (simp_all add: note_handle_def Let_def)

lemma walk_enqueue_all:
  "fifo_laws Q \<Longrightarrow> q_walk Q (fold (\<lambda>e q. q_enqueue Q q e) es q) = q_walk Q q @ es"
  by (induction es arbitrary: q) (simp_all add: fifo_laws_def)

lemma note_queue:
  "fifo_laws Q \<Longrightarrow> q_walk Q (eventQueue (fold (note_handle C Q w) hs st)) =
     q_walk Q (eventQueue st) @ concat (map (awaited C w) hs)"
  by (induction hs arbitrary: st) (simp_all add: note_handle_def Let_def walk_enqueue_all)

lemma note_triggered [simp]:
  "triggered_event (fold (note_handle C Q w) hs st) = triggered_event st"
  by (induction hs arbitrary: st) simp_all

text \<open>The timeout is the least waiting time of the timers, and the timer is one that attains it.\<close>

definition timer_time :: "'h core_api \<Rightarrow> 'h world \<Rightarrow> handle \<Rightarrow> int" where
  "timer_time C w h = ofc_timer_get_wait_time C h (core w)"

definition timer_choice :: "'h core_api \<Rightarrow> 'h world \<Rightarrow> handle list \<Rightarrow> handle \<times> int \<Rightarrow> handle \<times> int \<Rightarrow> bool" where
  "timer_choice C w hs before after \<longleftrightarrow>
     (after = before \<and> (\<forall>h \<in> set hs. timed C w h \<longrightarrow> snd before \<le> timer_time C w h)) \<or>
     (fst after \<in> set hs \<and> timed C w (fst after) \<and> snd after = timer_time C w (fst after) \<and>
      snd after < snd before \<and> (\<forall>h \<in> set hs. timed C w h \<longrightarrow> snd after \<le> timer_time C w h))"

lemma note_timer:
  "timer_choice C w hs (timer_event st, leastWait st)
     (timer_event (fold (note_handle C Q w) hs st), leastWait (fold (note_handle C Q w) hs st))"
proof (induction hs arbitrary: st)
  case (Cons h hs)
  let ?n = "note_handle C Q w h st"
  have n: "leastWait ?n = (if timed C w h \<and> timer_time C w h < leastWait st then timer_time C w h
             else leastWait st)"
    "timer_event ?n = (if timed C w h \<and> timer_time C w h < leastWait st then h else timer_event st)"
    by (simp_all add: note_handle_def Let_def timer_time_def)
  show ?case
    using Cons.IH [of ?n] unfolding n timer_choice_def by (auto split: if_splits)
qed (simp add: timer_choice_def)

text \<open>The two tables given to \<open>poll\<close> stay aligned: entry \<open>i\<close> of one belongs to entry \<open>i\<close> of the other.\<close>

lemma length_polled: "length (polled C w h) \<le> 1"
  by (simp add: polled_def split: handle_type.split option.split)

lemma tables_aligned:
  "list_all2 (\<lambda>p h. h \<in> set hs \<and> polled C w h = [p])
     (concat (map (polled C w) hs)) (concat (map (\<lambda>h. map (\<lambda>_. h) (polled C w h)) hs))"
proof (induction hs)
  case (Cons h hs)
  have "list_all2 (\<lambda>p x. x \<in> set (h # hs) \<and> polled C w x = [p]) (polled C w h)
          (map (\<lambda>_. h) (polled C w h))"
    using length_polled [of C w h] by (cases "polled C w h") auto
  moreover from Cons have "list_all2 (\<lambda>p x. x \<in> set (h # hs) \<and> polled C w x = [p])
     (concat (map (polled C w) hs)) (concat (map (\<lambda>h. map (\<lambda>_. h) (polled C w h)) hs))"
    by (rule list_all2_mono) auto
  ultimately show ?case by (simp add: list_all2_appendI)
qed simp

section \<open>Worlds that look alike to the scan\<close>

definition same_view :: "'h core_api \<Rightarrow> 'h world \<Rightarrow> 'h world \<Rightarrow> bool" where
  "same_view C v w \<longleftrightarrow> core_reads C (core v) = core_reads C (core w) \<and>
     ev_cells v = ev_cells w \<and> sk_cells v = sk_cells w"

lemma same_view_at:
  assumes "same_view C v w"
  shows "ev_at C h v = ev_at C h w" and "sk_at C h v = sk_at C h w"
    and "deref C h (core v) = deref C h (core w)"
  using assms core_reads_eqD(1) [of C "core v" "core w"]
  by (auto simp: same_view_def ev_at_def sk_at_def)

lemma same_view_reads:
  assumes "same_view C v w"
  shows "handle_ready C v = handle_ready C w" and "scannable C v = scannable C w"
    and "awaited C v = awaited C w" and "polled C v = polled C w"
    and "timed C v = timed C w" and "note_handle C Q v = note_handle C Q w"
    and "ev_kind C h v = ev_kind C h w"
proof -
  have c: "core_reads C (core v) = core_reads C (core w)" using assms by (simp add: same_view_def)
  note r = core_reads_eqD [OF c] same_view_at [OF assms]
  have s: "ev_signalled C h v = ev_signalled C h w" "ev_usable C h v = ev_usable C h w"
    "sk_usable C h v = sk_usable C h w" for h
    by (simp_all add: ev_signalled_def ev_usable_def sk_usable_def r)
  show "ev_kind C h v = ev_kind C h w" by (simp add: ev_kind_def r)
  show "handle_ready C v = handle_ready C w"
    by (simp add: handle_ready_def s r fun_eq_iff cong: handle_type.case_cong)
  show "scannable C v = scannable C w"
    by (simp add: scannable_def s r fun_eq_iff cong: handle_type.case_cong)
  show aw: "awaited C v = awaited C w" "polled C v = polled C w" "timed C v = timed C w"
    by (simp_all add: awaited_def polled_def timed_def r fun_eq_iff cong: handle_type.case_cong)
  show "note_handle C Q v = note_handle C Q w"
    by (simp add: note_handle_def aw r fun_eq_iff)
qed

section \<open>The whole wait\<close>

definition members :: "'h core_api \<Rightarrow> handle \<Rightarrow> 'h world \<Rightarrow> handle list" where
  "members C h w =
     (case Option.bind (deref C h (core w)) (ws_cells w) of
        None \<Rightarrow> [] | Some ws \<Rightarrow> ofc_queue_walk C (hHandleQueue ws) (core w))"

definition purged :: "'h core_api \<Rightarrow> handle \<Rightarrow> 'h world \<Rightarrow> 'h world" where
  "purged C h w =
     (case ws_pipe C h w of
        None \<Rightarrow> w
      | Some k \<Rightarrow> (case pipes w k of None \<Rightarrow> w
                  | Some p \<Rightarrow> w\<lparr>pipes := (pipes w)(k \<mapsto> p\<lparr>pbuf := []\<rparr>)\<rparr>))"

definition scan_tables ::
  "'h core_api \<Rightarrow> 'q queue_api \<Rightarrow> handle \<Rightarrow> 'h world \<Rightarrow> 'q scan_state" where
  "scan_tables C Q h w =
     (case ws_impl C h w of
        None \<Rightarrow> scan_start C Q (-1)
      | Some D \<Rightarrow> fold (note_handle C Q w) (members C h w) (scan_start C Q (pipe_rd D)))"

lemma purge_eq:
  assumes "nb_pipe D w = Some k" and "pipes w k = Some p"
  shows "purge_pipe (pipe_rd D) w = Some (w\<lparr>pipes := (pipes w)(k \<mapsto> p\<lparr>pbuf := []\<rparr>)\<rparr>)"
  unfolding purge_pipe_def using assms
proof (induction "pbuf p" arbitrary: w p)
  case Nil
  then have "p\<lparr>pbuf := []\<rparr> = p" by (cases p) simp
  with Nil show ?case by (simp add: drain.simps [of _ w] read_nb_pipe fun_upd_idem)
next
  case (Cons e es)
  let ?w = "w\<lparr>pipes := (pipes w)(k \<mapsto> p\<lparr>pbuf := es\<rparr>)\<rparr>"
  have "read_handle (pipe_rd D) w = Some (Some e, ?w)"
    using Cons.prems Cons.hyps(2) [symmetric] by (simp add: read_nb_pipe)
  moreover have "drain (read_handle (pipe_rd D)) ?w =
      Some (?w\<lparr>pipes := (pipes ?w)(k \<mapsto> (p\<lparr>pbuf := es\<rparr>)\<lparr>pbuf := []\<rparr>)\<rparr>)"
    using Cons.prems nb_pipe_pipe [OF Cons.prems(1)] by (intro Cons.hyps(1)) auto
  ultimately show ?case by (simp add: drain.simps [of _ w])
qed

lemma drain_queue: "fifo_laws Q \<Longrightarrow> \<exists>q'. drain (take_element Q) q = Some q'"
proof (induction "q_walk Q q" arbitrary: q)
  case Nil
  then show ?case by (simp add: drain.simps [of _ q] take_element_def fifo_laws_def)
next
  case (Cons e es)
  then have "fst (q_dequeue Q q) = Some e" "q_walk Q (snd (q_dequeue Q q)) = es"
    unfolding fifo_laws_def by metis+
  with Cons.hyps(1) [of "snd (q_dequeue Q q)"] Cons.prems show ?case
    by (simp add: drain.simps [of _ q] take_element_def)
qed

lemma same_view_core: "core_reads C s = core_reads C (core w) \<Longrightarrow> same_view C (w\<lparr>core := s\<rparr>) w"
  by (simp add: same_view_def)

lemma taken_core:
  assumes "core_reads C s = core_reads C (core w)"
  shows "taken C (w\<lparr>core := s\<rparr>) h = (taken C w h)\<lparr>core := s\<rparr>"
  using core_reads_eqD(1,2) [OF assms] same_view_reads(7) [OF same_view_core [OF assms]]
  by (auto simp: taken_def consumed_def ev_write_def split: option.split)

lemma taken_core_id: "core (taken C w h) = core w"
  by (simp add: taken_def consumed_def frame)

definition ws_addr :: "'h core_api \<Rightarrow> handle \<Rightarrow> 'h world \<Rightarrow> addr option" where
  "ws_addr C h w = do { a \<leftarrow> deref C h (core w); ws \<leftarrow> ws_cells w a; impl ws }"

text \<open>A wait set the scheduler can wait on: live, with its pipe, every member leading to its cells.\<close>

definition waitable :: "'h core_api \<Rightarrow> 'q queue_api \<Rightarrow> handle \<Rightarrow> 'h world \<Rightarrow> bool" where
  "waitable C Q h w \<longleftrightarrow> handle_laws C \<and> fifo_laws Q \<and> ws_pipe C h w \<noteq> None \<and>
     (\<forall>x \<in> set (members C h w). scannable C w x)"

lemma waitableE:
  assumes "waitable C Q h w"
  obtains k p D d where "handle_laws C" and "fifo_laws Q" and "ws_pipe C h w = Some k"
    and "pipes w k = Some p" and "ws_impl C h w = Some D" and "nb_pipe D w = Some k"
    and "ws_addr C h w = Some d" and "dws_cells w d = Some D"
    and "purged C h w = w\<lparr>pipes := (pipes w)(k \<mapsto> p\<lparr>pbuf := []\<rparr>)\<rparr>"
    and "\<forall>x \<in> set (members C h w). scannable C w x"
proof -
  from assms obtain k where l: "handle_laws C" "fifo_laws Q" "ws_pipe C h w = Some k"
    "\<forall>x \<in> set (members C h w). scannable C w x"
    unfolding waitable_def by blast
  from l(3) obtain a ws d D p where c: "deref C h (core w) = Some a" "ws_cells w a = Some ws"
    "impl ws = Some d" "dws_cells w d = Some D" "ws_impl C h w = Some D" "nb_pipe D w = Some k"
    "pipes w k = Some p" by (rule ws_pipe_implE)
  then have "ws_addr C h w = Some d"
    "purged C h w = w\<lparr>pipes := (pipes w)(k \<mapsto> p\<lparr>pbuf := []\<rparr>)\<rparr>"
    by (simp_all add: ws_addr_def purged_def l)
  with that l c show thesis by blast
qed

text \<open>
  The wait up to the point where it returns a ready handle or calls \<open>poll\<close>: the notifications
  pending at its start are gone, the scan has run over the members.
\<close>

lemma wait_scan:
  assumes "waitable C Q h w" and "ws_addr C h w = Some d"
  defines "v \<equiv> purged C h w"
  shows "ofc_waitset_wait_impl C Q (event_impl C) poll h w =
    (case List.find (handle_ready C w) (members C h w) of
       Some x \<Rightarrow> Some (x, taken C v x)
     | None \<Rightarrow> await_poll C Q (event_impl C) poll d (scan_tables C Q h w) v)"
proof -
  from assms(1) obtain k p D d' where l: "handle_laws C" "fifo_laws Q" "ws_pipe C h w = Some k"
    "pipes w k = Some p" "ws_impl C h w = Some D" "nb_pipe D w = Some k" "ws_addr C h w = Some d'"
    "dws_cells w d' = Some D" and pv: "purged C h w = w\<lparr>pipes := (pipes w)(k \<mapsto> p\<lparr>pbuf := []\<rparr>)\<rparr>"
    and sc: "\<forall>x \<in> set (members C h w). scannable C w x"
    by (rule waitableE)
  have v: "v = w\<lparr>pipes := (pipes w)(k \<mapsto> p\<lparr>pbuf := []\<rparr>)\<rparr>" using pv by (simp add: v_def)
  from l(7) obtain a ws where a: "deref C h (core w) = Some a" "ws_cells w a = Some ws"
    "impl ws = Some d'" by (auto simp: ws_addr_def elim!: bind_SomeE)
  have d: "d' = d" using l(7) assms(2) by simp
  let ?s = "snd (ofc_handle_lock C h (core w))"
  let ?v = "v\<lparr>core := ?s\<rparr>"
  have rs: "core_reads C ?s = core_reads C (core w)" by (rule handle_lawsD(3) [OF l(1)])
  have view: "same_view C ?v w" using rs by (simp add: same_view_def v)
  note reads = same_view_reads [OF view]
  have mem: "ofc_queue_walk C (hHandleQueue ws) ?s = members C h w"
    using core_reads_eqD(3) [OF rs] by (simp add: members_def a)
  have nn: "OFC_HANDLE_NULL \<notin> set (members C h w)"
    unfolding mem [symmetric] by (rule handle_lawsD(7) [OF l(1)])
  have "nb_pipe D (w\<lparr>core := ?s\<rparr>) = Some k" using l(6) by (simp add: nb_pipe_def)
  then have pg: "purge_pipe (pipe_rd D) (w\<lparr>core := ?s\<rparr>) = Some ?v"
    using purge_eq [of D "w\<lparr>core := ?s\<rparr>" k p] l(4) by (simp add: v)
  have body: "ofc_waitset_wait_impl C Q (event_impl C) poll h w = do {
      (st, w) \<leftarrow> scan_handles C Q (event_impl C) (members C h w) (scan_start C Q (pipe_rd D)) ?v;
      let w = unlock_h C h w;
      (r, w) \<leftarrow> (if triggered_event st = OFC_HANDLE_NULL
                 then await_poll C Q (event_impl C) poll d st w else Some (triggered_event st, w));
      q \<leftarrow> drain (take_element Q) (eventQueue st);
      Some (r, w) }"
    using a l(8) pg by (simp add: ofc_waitset_wait_impl_def lock_h_eq mem d)
  have unlock: "unlock_h C h (u\<lparr>core := ?s\<rparr>) = u" if "core u = core w" for u
    using that handle_lawsD(2) [OF l(1) a(1)] by (simp add: unlock_h_def)
  have tri: "triggered_event (scan_start C Q (pipe_rd D)) = OFC_HANDLE_NULL"
    by (simp add: scan_start_def)
  show ?thesis
  proof (cases "List.find (handle_ready C w) (members C h w)")
    case None
    then have "\<forall>x \<in> set (members C h w). scannable C ?v x \<and> \<not> handle_ready C ?v x"
      using sc by (simp add: reads find_None_iff)
    from scan_handles_waiting [OF this tri] have
      "scan_handles C Q (event_impl C) (members C h w) (scan_start C Q (pipe_rd D)) ?v =
       Some (scan_tables C Q h w, ?v)"
      by (simp add: scan_tables_def l(5) reads)
    moreover have "triggered_event (scan_tables C Q h w) = OFC_HANDLE_NULL"
      using tri by (simp add: scan_tables_def l(5))
    moreover obtain q where "drain (take_element Q) (eventQueue (scan_tables C Q h w)) = Some q"
      using drain_queue [OF l(2)] by blast
    ultimately show ?thesis using None unlock [of v]
      by (auto simp: body v split: Option.bind_splits)
  next
    case (Some x)
    then have "List.find (handle_ready C ?v) (members C h w) = Some x" by (simp add: reads)
    moreover have "\<forall>x \<in> set (members C h w). scannable C ?v x" using sc by (simp add: reads)
    ultimately obtain st' where st: "scan_handles C Q (event_impl C) (members C h w)
        (scan_start C Q (pipe_rd D)) ?v = Some (st', taken C ?v x)" "triggered_event st' = x"
      using scan_handles_ready [OF _ tri _ nn] by blast
    have "taken C ?v x = (taken C v x)\<lparr>core := ?s\<rparr>"
      using rs by (intro taken_core) (simp add: v)
    moreover have "x \<noteq> OFC_HANDLE_NULL" using Some nn find_SomeD by metis
    moreover obtain q where "drain (take_element Q) (eventQueue st') = Some q"
      using drain_queue [OF l(2)] by blast
    ultimately show ?thesis using Some st unlock [of "taken C v x"]
      by (simp add: body taken_core_id v)
  qed
qed

end
