(* ===== verification/Demo_Sched.thy ===== *)
theory Demo_Sched
  imports Demo_Core Waitset_Facts
begin

text \<open>
  A concrete scheduler world for witnesses: wait set 7 (its pipe is pipe 0, descriptors 3
  and 4), an auto-reset event 5 and a timer 6 of 250 ms as its members, in that order.
\<close>

definition demo_fifo :: "EVENT_ELEMENT list queue_api" where
  "demo_fifo = \<lparr>q_create = [], q_enqueue = (\<lambda>q e. q @ [e]),
     q_dequeue = (\<lambda>q. case q of [] \<Rightarrow> (None, []) | e # es \<Rightarrow> (Some e, es)), q_walk = (\<lambda>q. q)\<rparr>"

lemma demo_fifo_sel [simp]:
  "q_create demo_fifo = []" "q_enqueue demo_fifo = (\<lambda>q e. q @ [e])"
  "q_dequeue demo_fifo = (\<lambda>q. case q of [] \<Rightarrow> (None, []) | e # es \<Rightarrow> (Some e, es))"
  "q_walk demo_fifo = (\<lambda>q. q)"
  by (simp_all add: demo_fifo_def)

lemma demo_fifo_laws [simp]: "fifo_laws demo_fifo"
  by (simp add: fifo_laws_def)

definition sched_core :: demo where
  "sched_core = \<lparr>d_live = (\<lambda>_. None)(7 := Some OFC_HANDLE_WAIT_SET, 5 := Some OFC_HANDLE_EVENT,
       6 := Some OFC_HANDLE_TIMER),
     d_refs = (\<lambda>_. 0), d_wait_set = (\<lambda>_. OFC_HANDLE_NULL)(5 := Handle 7),
     d_queue = [5, 6], d_timer = (\<lambda>_. 250)\<rparr>"

definition demo_sched :: "bool \<Rightarrow> handle list \<Rightarrow> demo world" where
  "demo_sched b buf = (demo_world sched_core)
     \<lparr>ev_cells := [5 \<mapsto> \<lparr>eventType = OFC_EVENT_AUTO, signalled = b, mutex_held = False\<rparr>],
      ws_cells := [7 \<mapsto> \<lparr>impl = Some 2, hHandleQueue = Handle 9\<rparr>],
      dws_cells := [2 \<mapsto> \<lparr>pipe_rd = 3, pipe_wr = 4\<rparr>],
      fds := [3 \<mapsto> \<lparr>fd_end = Read_End, fd_pipe = 0, o_nonblock = True\<rparr>,
              4 \<mapsto> \<lparr>fd_end = Write_End, fd_pipe = 0, o_nonblock = True\<rparr>],
      pipes := [0 \<mapsto> \<lparr>pbuf = buf, pcap = 8\<rparr>]\<rparr>"

lemma sched_core_sel [simp]:
  "d_live sched_core = (\<lambda>_. None)(7 := Some OFC_HANDLE_WAIT_SET, 5 := Some OFC_HANDLE_EVENT,
       6 := Some OFC_HANDLE_TIMER)"
  "d_wait_set sched_core = (\<lambda>_. OFC_HANDLE_NULL)(5 := Handle 7)"
  "d_queue sched_core = [5, 6]" "d_timer sched_core = (\<lambda>_. 250)"
  by (simp_all add: sched_core_def)

lemma demo_sched_sel [simp]:
  "core (demo_sched b buf) = sched_core"
  "ev_cells (demo_sched b buf) =
     [5 \<mapsto> \<lparr>eventType = OFC_EVENT_AUTO, signalled = b, mutex_held = False\<rparr>]"
  "ws_cells (demo_sched b buf) = [7 \<mapsto> \<lparr>impl = Some 2, hHandleQueue = Handle 9\<rparr>]"
  "dws_cells (demo_sched b buf) = [2 \<mapsto> \<lparr>pipe_rd = 3, pipe_wr = 4\<rparr>]"
  "fds (demo_sched b buf) = [3 \<mapsto> \<lparr>fd_end = Read_End, fd_pipe = 0, o_nonblock = True\<rparr>,
              4 \<mapsto> \<lparr>fd_end = Write_End, fd_pipe = 0, o_nonblock = True\<rparr>]"
  "pipes (demo_sched b buf) = [0 \<mapsto> \<lparr>pbuf = buf, pcap = 8\<rparr>]"
  "calls (demo_sched b buf) = []"
  by (simp_all add: demo_sched_def)

lemma sched_impl: "ws_impl demo_api (Handle 7) (demo_sched b buf) = Some \<lparr>pipe_rd = 3, pipe_wr = 4\<rparr>"
  by (simp add: ws_impl_def)

lemma sched_pipe: "ws_pipe demo_api (Handle 7) (demo_sched b buf) = Some 0"
  by (simp add: ws_pipe_def sched_impl nb_pipe_def)

lemma sched_members: "members demo_api (Handle 7) (demo_sched b buf) = [Handle 5, Handle 6]"
  by (simp add: members_def)

lemma sched_ev: "ev_at demo_api (Handle 5) (demo_sched b buf) =
    Some \<lparr>eventType = OFC_EVENT_AUTO, signalled = b, mutex_held = False\<rparr>"
  by (simp add: ev_at_def)

lemma sched_usable: "ev_usable demo_api (Handle 5) (demo_sched b buf)"
  by (simp add: ev_usable_def sched_ev)

lemma sched_waitable: "waitable demo_api demo_fifo (Handle 7) (demo_sched b buf)"
  by (simp add: waitable_def sched_pipe sched_members scannable_def sched_usable)

lemma sched_addr: "ws_addr demo_api (Handle 7) (demo_sched b buf) = Some 2"
  by (simp add: ws_addr_def)

lemma sched_ready:
  "handle_ready demo_api (demo_sched b buf) (Handle 5) = b"
  "handle_ready demo_api (demo_sched b buf) (Handle 6) = False"
  by (simp_all add: handle_ready_def ev_signalled_def sched_ev)

lemma sched_purged: "purged demo_api (Handle 7) (demo_sched b buf) = demo_sched b []"
  by (simp add: purged_def sched_pipe) (simp add: demo_sched_def)

lemma sched_awaited:
  "awaited demo_api (demo_sched b buf) (Handle 5) = [\<lparr>hEvent = Handle 5, hAssoc = Handle 5\<rparr>]"
  "awaited demo_api (demo_sched b buf) (Handle 6) = []"
  by (simp_all add: awaited_def)

lemma sched_polled:
  "polled demo_api (demo_sched b buf) (Handle 5) = []"
  "polled demo_api (demo_sched b buf) (Handle 6) = []"
  by (simp_all add: polled_def)

lemma sched_write:
  "ev_write demo_api (Handle 5) b' (demo_sched b buf) = demo_sched b' buf"
  by (simp add: ev_write_def) (simp add: demo_sched_def)

lemma sched_signal:
  "ofc_waitset_signal_impl demo_api (Handle 7) e (demo_sched b []) = Some (demo_sched b [e])"
  by (simp add: signal_eq [OF _ sched_pipe]) (simp add: demo_sched_def)

lemma sched_set:
  "ofc_event_set_impl demo_api (Handle 5) (demo_sched b []) = Some (demo_sched True [Handle 5])"
  by (simp add: event_set_eq sched_usable sched_signal sched_write)

text \<open>\<open>poll\<close> as it answers when another thread runs \<open>act\<close> meanwhile and the pipe is readable.\<close>

definition demo_poll :: "('h world \<Rightarrow> 'h world option) \<Rightarrow> 'h poll_call" where
  "demo_poll act ps t v =
     map_option (\<lambda>v'. (1, [\<lparr>fd = 3, events = POLLIN, revents = POLLIN\<rparr>], v')) (act v)"

text \<open>The same wait set with a socket 8 (descriptor 11) as its only member.\<close>

definition demo_any_ip :: OFC_IPADDR where
  "demo_any_ip = \<lparr>ip_version = OFC_FAMILY_IP, ipv4_addr = 0, s6_addr = replicate 16 0, scope = 0\<rparr>"

definition demo_socket :: "u16 \<Rightarrow> OFC_SOCKET_IMPL" where
  "demo_socket r = \<lparr>sk_socket = 11, sk_family = OFC_FAMILY_IP, sk_events = POLLIN, sk_revents = r,
     sk_ip = demo_any_ip\<rparr>"

definition demo_sock_sched :: "u16 \<Rightarrow> demo world" where
  "demo_sock_sched r = (demo_sched False [])
     \<lparr>core := sched_core\<lparr>d_live := (\<lambda>_. None)(7 := Some OFC_HANDLE_WAIT_SET, 8 := Some OFC_HANDLE_SOCKET),
                        d_queue := [8]\<rparr>,
      sk_cells := [8 \<mapsto> demo_socket r]\<rparr>"

lemma sock_sched_sel [simp]:
  "core (demo_sock_sched r) = sched_core\<lparr>d_live := (\<lambda>_. None)(7 := Some OFC_HANDLE_WAIT_SET,
     8 := Some OFC_HANDLE_SOCKET), d_queue := [8]\<rparr>"
  "sk_cells (demo_sock_sched r) = [8 \<mapsto> demo_socket r]"
  "ws_cells (demo_sock_sched r) = [7 \<mapsto> \<lparr>impl = Some 2, hHandleQueue = Handle 9\<rparr>]"
  "dws_cells (demo_sock_sched r) = [2 \<mapsto> \<lparr>pipe_rd = 3, pipe_wr = 4\<rparr>]"
  "fds (demo_sock_sched r) = [3 \<mapsto> \<lparr>fd_end = Read_End, fd_pipe = 0, o_nonblock = True\<rparr>,
              4 \<mapsto> \<lparr>fd_end = Write_End, fd_pipe = 0, o_nonblock = True\<rparr>]"
  "pipes (demo_sock_sched r) = [0 \<mapsto> \<lparr>pbuf = [], pcap = 8\<rparr>]"
  by (simp_all add: demo_sock_sched_def)

lemma sock_impl: "ws_impl demo_api (Handle 7) (demo_sock_sched r) = Some \<lparr>pipe_rd = 3, pipe_wr = 4\<rparr>"
  by (simp add: ws_impl_def)

lemma sock_pipe: "ws_pipe demo_api (Handle 7) (demo_sock_sched r) = Some 0"
  by (simp add: ws_pipe_def sock_impl nb_pipe_def)

lemma sock_members: "members demo_api (Handle 7) (demo_sock_sched r) = [Handle 8]"
  by (simp add: members_def)

lemma sock_at: "sk_at demo_api (Handle 8) (demo_sock_sched r) = Some (demo_socket r)"
  by (simp add: sk_at_def)

lemma sock_usable: "sk_usable demo_api (Handle 8) (demo_sock_sched r)"
  by (simp add: sk_usable_def sock_at)

lemma sock_waitable: "waitable demo_api demo_fifo (Handle 7) (demo_sock_sched r)"
  by (simp add: waitable_def sock_pipe sock_members scannable_def sock_usable)

lemma sock_ready: "handle_ready demo_api (demo_sock_sched r) (Handle 8) = False"
  by (simp add: handle_ready_def)

lemma sock_purged: "purged demo_api (Handle 7) (demo_sock_sched r) = demo_sock_sched r"
  by (simp add: purged_def sock_pipe fun_upd_idem)

lemma sock_polled: "polled demo_api (demo_sock_sched r) (Handle 8) =
    [\<lparr>fd = 11, events = POLLIN, revents = 0\<rparr>]"
  by (simp add: polled_def sock_at) (simp add: demo_socket_def)

end
