(* ===== verification/Thread_Correct.thy ===== *)
theory Thread_Correct
  imports Thread_Darwin Demo_Sched Waitset_Facts
begin

text \<open>
  The properties of threads: cells and handles stay in step through every operation, the
  request to stop is seen, joining frees once, and the two places where the code's order of
  actions matters (the return of \<open>ofc_thread_create_impl\<close>, the width of a sleep).
\<close>

section \<open>Every operation keeps cells and handles in step\<close>

lemma threads_okD:
  assumes "threads_ok C w0 w"
  shows "th_cells w a = Some T \<Longrightarrow> deref C (th_handle T) (core w) = Some a"
    and "deref C g (core w) = Some b \<Longrightarrow>
      th_cells w b \<noteq> None \<or> deref C g (core w0) = Some b \<and> th_cells w0 b = None"
  using assms by (simp_all add: threads_ok_def cells_named_def handles_backed_def)

lemma threads_okI:
  assumes "\<And>a T. th_cells w a = Some T \<Longrightarrow> deref C (th_handle T) (core w) = Some a"
    and "\<And>g b. deref C g (core w) = Some b \<Longrightarrow>
      th_cells w b \<noteq> None \<or> deref C g (core w0) = Some b \<and> th_cells w0 b = None"
  shows "threads_ok C w0 w"
  using assms by (simp add: threads_ok_def cells_named_def handles_backed_def)

lemma ok_cong:
  assumes "threads_ok C w0 w" and "\<And>g. deref C g (core w') = deref C g (core w)"
    and "\<And>a. map_option th_handle (th_cells w' a) = map_option th_handle (th_cells w a)"
  shows "threads_ok C w0 w'"
proof (rule threads_okI)
  fix a T assume "th_cells w' a = Some T"
  then obtain T0 where "th_cells w a = Some T0" "th_handle T0 = th_handle T"
    using assms(3) [of a] by (cases "th_cells w a") auto
  then show "deref C (th_handle T) (core w') = Some a"
    using threads_okD(1) [OF assms(1)] assms(2) by metis
next
  fix g b assume "deref C g (core w') = Some b"
  then have "th_cells w b \<noteq> None \<or> deref C g (core w0) = Some b \<and> th_cells w0 b = None"
    using threads_okD(2) [OF assms(1)] assms(2) by simp
  then show "th_cells w' b \<noteq> None \<or> deref C g (core w0) = Some b \<and> th_cells w0 b = None"
    using assms(3) [of b] by (cases "th_cells w' b") auto
qed

lemma ok_kill:
  assumes "handle_laws C" and "threads_ok C w0 w" and "th_cells w a = Some T"
    and "th_cells w' = (th_cells w)(a := None)"
    and "\<And>g. deref C g (core w') = (if g = th_handle T then None else deref C g (core w))"
  shows "threads_ok C w0 w'"
proof (rule threads_okI)
  have T: "deref C (th_handle T) (core w) = Some a" by (rule threads_okD(1) [OF assms(2,3)])
  fix b S assume "th_cells w' b = Some S"
  with assms(4) have b: "b \<noteq> a" "th_cells w b = Some S" by (auto split: if_splits)
  with threads_okD(1) [OF assms(2) b(2)] T show "deref C (th_handle S) (core w') = Some b"
    by (auto simp: assms(5))
next
  have T: "deref C (th_handle T) (core w) = Some a" by (rule threads_okD(1) [OF assms(2,3)])
  fix g b assume g: "deref C g (core w') = Some b"
  then have h: "g \<noteq> th_handle T" "deref C g (core w) = Some b" by (auto simp: assms(5) split: if_splits)
  then have "b \<noteq> a" using handle_lawsD(5) [OF assms(1) _ T] by blast
  with threads_okD(2) [OF assms(2) h(2)]
  show "th_cells w' b \<noteq> None \<or> deref C g (core w0) = Some b \<and> th_cells w0 b = None"
    by (simp add: assms(4))
qed

lemma ok_update:
  assumes "threads_ok C w0 w" and "\<And>T. th_handle (f T) = th_handle T"
  shows "threads_ok C w0 (th_update C h f w)"
  using assms(1) by (rule ok_cong)
    (auto simp: frame th_update_def put_thread_def assms(2) split: option.split)

lemma ok_new:
  assumes "lifecycle_laws C" and "threads_ok C w0 w"
    and "th_cells w a = None" and "\<forall>k. deref C k (core w) \<noteq> Some a"
    and "ofc_handle_create C t a (core w) = (k, s)" and "th_handle T = k"
    and "core w' = s" and "th_cells w' = (th_cells w)(a \<mapsto> T)"
  shows "threads_ok C w0 w'"
proof (rule threads_okI)
  note cr = lifecycle_lawsD(1) [OF assms(1,5,4)]
  fix b S assume S: "th_cells w' b = Some S"
  show "deref C (th_handle S) (core w') = Some b"
  proof (cases "b = a")
    case False
    then have "deref C (th_handle S) (core w) = Some b"
      using S threads_okD(1) [OF assms(2)] by (simp add: assms(8))
    with cr assms(7) show ?thesis by (metis option.distinct(1))
  qed (use S cr assms(6-8) in auto)
next
  note cr = lifecycle_lawsD(1) [OF assms(1,5,4)]
  fix g b assume "deref C g (core w') = Some b"
  then have "b = a \<or> deref C g (core w) = Some b" using cr assms(7) by (cases "g = k") auto
  with threads_okD(2) [OF assms(2)]
  show "th_cells w' b \<noteq> None \<or> deref C g (core w0) = Some b \<and> th_cells w0 b = None"
    by (auto simp: assms(8))
qed

lemma ok_create:
  assumes "handle_laws C" and "lifecycle_laws C" and "threads_ok C w0 w"
    and "ofc_thread_create_impl C f x ds n m g ans env w = Some (h, w')"
    and "\<And>a. m = Some a \<Longrightarrow> th_cells w a = None \<and> (\<forall>k. deref C k (core w) \<noteq> Some a)"
    and env: "\<And>u v. env u = Some v \<Longrightarrow> threads_ok C w0 u \<Longrightarrow> threads_ok C w0 v"
  shows "threads_ok C w0 w'"
proof (cases m)
  case None
  with assms(3,4) show ?thesis by (simp add: ofc_thread_create_impl_def)
next
  case (Some a)
  from assms(5) [OF Some] have fresh: "th_cells w a = None" "\<forall>k. deref C k (core w) \<noteq> Some a" by auto
  obtain k s where k: "ofc_handle_create C OFC_HANDLE_THREAD a (core w) = (k, s)" by fastforce
  let ?T = "g\<lparr>th_wait_set := OFC_HANDLE_NULL, deleteMe := False, th_scheduler := f, th_context := x,
    hNotify := n, th_handle := k, th_detachstate := ds\<rparr>"
  let ?w = "\<lambda>T. w\<lparr>core := s, calls := calls w @ [Pthread_create a ds], th_cells := (th_cells w)(a \<mapsto> T)\<rparr>"
  have new: "threads_ok C w0 (?w T)" if "th_handle T = k" for T
    by (rule ok_new [OF assms(2,3) fresh k that]) simp_all
  show ?thesis
  proof (cases ans)
    case None
    then have "w' = (?w ?T)\<lparr>core := ofc_handle_destroy C k s, th_cells := (th_cells w)(a := None)\<rparr>"
      using assms(4) Some k by (simp add: ofc_thread_create_impl_def op_defs)
    moreover have "deref C k s = Some a" using lifecycle_lawsD(1) [OF assms(2) k fresh(2)] by blast
    ultimately show ?thesis
      by (intro ok_kill [OF assms(1) new [of ?T], of a ?T])
        (simp_all add: lifecycle_lawsD(3) [OF assms(2)])
  next
    case (Some t)
    then have "env (?w (?T\<lparr>th_thread := t\<rparr>)) = Some w'"
      using assms(4) \<open>m = Some a\<close> k by (auto simp: ofc_thread_create_impl_def op_defs elim!: bind_SomeE)
    then show ?thesis by (rule env) (rule new, simp)
  qed
qed

lemma ok_launch:
  assumes "handle_laws C" and "lifecycle_laws C" and "threads_ok C w0 w"
    and "ofc_thread_launch C (direct C) run a w = Some w'"
    and run: "\<And>k x u r v. run k x u = Some (r, v) \<Longrightarrow> threads_ok C w0 u \<Longrightarrow> threads_ok C w0 v"
  shows "threads_ok C w0 w'"
proof -
  obtain T0 where T0: "th_cells w a = Some T0"
    using assms(4) by (cases "th_cells w a") (simp_all add: ofc_thread_launch_def)
  obtain r v where v: "run (th_handle T0) (th_context T0) w = Some (r, v)"
    using assms(4) T0 by (cases "run (th_handle T0) (th_context T0) w") (auto simp: ofc_thread_launch_def)
  obtain T where T: "th_cells v a = Some T"
    using assms(4) T0 v by (cases "th_cells v a") (simp_all add: ofc_thread_launch_def)
  let ?T = "T\<lparr>th_ret := r\<rparr>" and ?v = "put_thread a (T\<lparr>th_ret := r\<rparr>) v"
  let ?notified = "if hNotify T \<noteq> OFC_HANDLE_NULL then ofc_event_set_impl C (hNotify T) ?v else Some ?v"
  obtain u where n: "?notified = Some u"
    using assms(4) T0 v T
    by (cases ?notified) (auto simp: ofc_thread_launch_def Let_def split: if_splits)
  then have u: "core u = core ?v" "th_cells u = th_cells ?v"
    using event_set_frame [OF assms(1)] by (auto split: if_splits)
  have w': "w' = (if th_detachstate T = OFC_THREAD_DETACH
      then free_thread a (destroy_h C (th_handle T) (record_call (Pthread_cancel (th_thread T)) u)) else u)"
    using assms(4) T0 v T n u(2) by (auto simp: ofc_thread_launch_def put_thread_def Let_def split: if_splits)
  have "threads_ok C w0 ?v"
    by (rule ok_cong [OF run [OF v assms(3)]]) (auto simp: put_thread_def T)
  then have ok: "threads_ok C w0 u" by (rule ok_cong) (simp_all add: u)
  show ?thesis
  proof (cases "th_detachstate T = OFC_THREAD_DETACH")
    case True
    have T: "th_cells u a = Some ?T" by (simp add: u put_thread_def)
    have "deref C (th_handle T) (core u) = Some a" using threads_okD(1) [OF ok T] by simp
    then show ?thesis
      by (intro ok_kill [OF assms(1) ok T])
        (simp_all add: w' True op_defs lifecycle_lawsD(3) [OF assms(2)])
  qed (simp add: w' ok)
qed

lemma ok_join:
  assumes "handle_laws C" and "lifecycle_laws C" and "threads_ok C w0 w"
    and "ofc_thread_wait_impl C Some h w = Some w'"
  shows "threads_ok C w0 w'"
proof (cases "deref C h (core w)")
  case None
  with assms show ?thesis by (simp add: wait_dead)
next
  case (Some a)
  with assms(4) obtain T where T: "th_cells w a = Some T"
    by (auto simp: ofc_thread_wait_impl_def lock_h_eq elim!: bind_SomeE)
  then have at: "th_at C h w = Some T" using Some by (simp add: th_at_def)
  have h: "th_handle T = h"
    using handle_lawsD(5) [OF assms(1) Some] threads_okD(1) [OF assms(3) T] by blast
  show ?thesis
  proof (cases "th_detachstate T = OFC_THREAD_JOIN")
    case False
    with assms(3,4) wait_not_joinable [OF assms(1) at] show ?thesis by simp
  next
    case True
    with assms(4) Some join_eq [OF assms(1) at True h] have w': "w' = w\<lparr>core := ofc_handle_unlock C h
        (ofc_handle_destroy C h (snd (ofc_handle_lock C h (core w)))),
        th_cells := (th_cells w)(a := None), calls := calls w @ [Pthread_join (th_thread T)]\<rparr>"
      by simp
    show ?thesis
      using assms(1,3) T by (rule ok_kill) (simp_all add: w' h lifecycle_lawsD(2) [OF assms(2)] Some)
  qed
qed

text \<open>The operations on one field of the cell.\<close>

lemma returns_at:
  assumes "handle_laws C" and "deref C h (core w) \<noteq> None"
  shows "ofc_thread_set_waitset_impl C h ws w = Some v \<Longrightarrow> \<exists>T. th_at C h w = Some T"
    and "ofc_thread_delete_impl C U h w = Some v \<Longrightarrow> \<exists>T. th_at C h w = Some T"
    and "ofc_thread_detach_impl C h w = Some v \<Longrightarrow> \<exists>T. th_at C h w = Some T"
    and "ofc_thread_is_deleting_impl C h w = Some y \<Longrightarrow> \<exists>T. th_at C h w = Some T"
  using assms(2)
  by (auto simp: ofc_thread_set_waitset_impl_def ofc_thread_delete_impl_def ofc_thread_detach_impl_def
      ofc_thread_is_deleting_impl_def lock_h_eq th_at_def elim!: bind_SomeE)

lemma on_dead_thread:
  assumes "handle_laws C" and "deref C h (core w) = None"
  shows "ofc_thread_set_waitset_impl C h ws w = Some w" "ofc_thread_delete_impl C U h w = Some w"
    "ofc_thread_detach_impl C h w = Some w" "ofc_thread_is_deleting_impl C h w = Some (False, w)"
  using assms by (simp_all add: ofc_thread_set_waitset_impl_def ofc_thread_delete_impl_def
      ofc_thread_detach_impl_def ofc_thread_is_deleting_impl_def lock_h_None)

lemma ok_field:
  assumes "handle_laws C" and "threads_ok C w0 w"
  shows "ofc_thread_set_waitset_impl C h ws w = Some v \<Longrightarrow> threads_ok C w0 v"
    and "ofc_thread_delete_impl C (direct C) h w = Some v \<Longrightarrow> threads_ok C w0 v"
    and "ofc_thread_detach_impl C h w = Some v \<Longrightarrow> threads_ok C w0 v"
    and "ofc_thread_is_deleting_impl C h w = Some (b, v) \<Longrightarrow> threads_ok C w0 v"
proof -
  have calls: "threads_ok C w0 (record_call c u)" if "threads_ok C w0 u" for c u
    using that by (rule ok_cong) (simp_all add: record_call_def)
  have wake: "threads_ok C w0 u" if "ofc_waitset_wake_impl C g w = Some u" for g u
    using assms(2) by (rule ok_cong)
      (use that signal_frame [OF assms(1)] in \<open>auto simp: ofc_waitset_wake_impl_def\<close>)
  show "threads_ok C w0 v" if "ofc_thread_set_waitset_impl C h ws w = Some v"
    using that on_dead_thread [OF assms(1)] returns_at(1) [OF assms(1) _ that] set_waitset_eq [OF assms(1)]
      ok_update [OF assms(2)] assms(2)
    by (cases "deref C h (core w)") fastforce+
  show "threads_ok C w0 v" if "ofc_thread_delete_impl C (direct C) h w = Some v"
    using that on_dead_thread [OF assms(1)] returns_at(2) [OF assms(1) _ that] delete_eq [OF assms(1)]
      ok_update wake assms(2)
    by (cases "deref C h (core w)") (fastforce split: if_splits)+
  show "threads_ok C w0 v" if "ofc_thread_detach_impl C h w = Some v"
    using that on_dead_thread [OF assms(1)] returns_at(3) [OF assms(1) _ that] detach_eq [OF assms(1)]
      ok_update [OF assms(2)] calls assms(2)
    by (cases "deref C h (core w)") fastforce+
  show "threads_ok C w0 v" if "ofc_thread_is_deleting_impl C h w = Some (b, v)"
    using that on_dead_thread [OF assms(1)] returns_at(4) [OF assms(1) _ that] is_deleting_eq [OF assms(1)]
      assms(2)
    by (cases "deref C h (core w)") fastforce+
qed

lemma ok_steps:
  assumes "(\<lambda>u v. R u v \<and> (threads_ok C w0 u \<longrightarrow> threads_ok C w0 v))\<^sup>*\<^sup>* w v" and "threads_ok C w0 w"
  shows "threads_ok C w0 v"
  using assms by (induction rule: rtranclp_induct) auto

lemma ok_step:
  assumes "th_step C w w'" and "handle_laws C" and "lifecycle_laws C"
  shows "threads_ok C w0 w \<longrightarrow> threads_ok C w0 w'"
  using assms(1)
proof (induction rule: th_step.induct)
  case (create f x ds n m g ans env w h w')
  then show ?case using ok_create [OF assms(2,3) _ create(1,2)] ok_steps [OF create(3)] by blast
next
  case (launch run a w w')
  then show ?case using ok_launch [OF assms(2,3) _ launch(1)] ok_steps [OF launch(2)] by blast
next
  case (other w' w)
  then show ?case using ok_cong by metis
next
  case (set_waitset h ws w w')
  then show ?case using ok_field(1) [OF assms(2)] by blast
next
  case (delete h w w')
  then show ?case using ok_field(2) [OF assms(2)] by blast
next
  case (detach h w w')
  then show ?case using ok_field(3) [OF assms(2)] by blast
next
  case (is_deleting h w b w')
  then show ?case using ok_field(4) [OF assms(2)] by blast
next
  case (join h w w')
  then show ?case using ok_join [OF assms(2,3)] by blast
qed

section \<open>Properties\<close>


definition demo_thread :: DARWIN_THREAD where
  "demo_thread = \<lparr>th_thread = 0, th_scheduler = 0, th_context = 0, th_ret = 0, deleteMe = False,
     th_handle = OFC_HANDLE_NULL, th_detachstate = OFC_THREAD_OTHER, th_wait_set = OFC_HANDLE_NULL,
     hNotify = OFC_HANDLE_NULL\<rparr>"


text \<open>
  A request to stop is seen: after \<open>ofc_thread_delete_impl\<close> on a live thread,
  \<open>ofc_thread_is_deleting_impl\<close> answers true, and the wait set the thread is attached to has a
  notification pending, even when its pipe was full.
\<close>

theorem delete_is_seen:
  assumes "handle_laws C" and "th_at C h w = Some T" and "ws_pipe C (th_wait_set T) w \<noteq> None"
  shows "\<exists>w'. ofc_thread_delete_impl C (direct C) h w = Some w' \<and>
    ofc_thread_is_deleting_impl C h w' = Some (True, w') \<and> pending C (th_wait_set T) w' \<noteq> []"
proof -
  let ?ws = "th_wait_set T"
  have ok: "handle_laws C \<and> ws_pipe C ?ws w \<noteq> None" using assms by simp
  obtain k where "ws_pipe C ?ws w = Some k" using assms(3) by blast
  then have nn: "?ws \<noteq> OFC_HANDLE_NULL" using ws_pipe_live handle_lawsD(6) [OF assms(1)] by metis
  obtain v where v: "ofc_waitset_signal_impl C ?ws OFC_HANDLE_NULL w = Some v"
    using ws_queue.notify_law [OF ok] by blast
  let ?f = "deleteMe_update (\<lambda>_. True)"
  have d: "ofc_thread_delete_impl C (direct C) h w = Some (th_update C h ?f v)"
    using nn v by (simp add: delete_eq [OF assms(1,2)] ofc_waitset_wake_impl_def)
  have fr: "core v = core w" "th_cells v = th_cells w" using signal_frame [OF assms(1) v] by simp_all
  then have "th_at C h (th_update C h ?f v) = Some (T\<lparr>deleteMe := True\<rparr>)"
    using assms(2) by (simp add: th_at_update_self) (simp add: th_at_def)
  then have "ofc_thread_is_deleting_impl C h (th_update C h ?f v) = Some (True, th_update C h ?f v)"
    by (simp add: is_deleting_eq [OF assms(1)])
  moreover have "pending C ?ws (th_update C h ?f v) = pending C ?ws v"
    by (simp add: pending_def pipe_items_def ws_pipe_def ws_impl_def nb_pipe_def frame)
  ultimately show ?thesis using d ws_queue.notify_leaves_pending [OF ok v] by auto
qed

definition demo_deletable :: "demo world" where
  "demo_deletable = (demo_sched False [])
     \<lparr>core := sched_core\<lparr>d_live := (d_live sched_core)(20 := Some OFC_HANDLE_THREAD)\<rparr>,
      th_cells := [20 \<mapsto> demo_thread\<lparr>th_handle := Handle 20, th_wait_set := Handle 7,
                                    th_detachstate := OFC_THREAD_JOIN, th_thread := 33\<rparr>]\<rparr>"

lemma demo_deletable_thread: "th_at demo_api (Handle 20) demo_deletable =
    Some (demo_thread\<lparr>th_handle := Handle 20, th_wait_set := Handle 7,
                      th_detachstate := OFC_THREAD_JOIN, th_thread := 33\<rparr>)"
  by (simp add: th_at_def demo_deletable_def)

lemma demo_deletable_pipe: "ws_pipe demo_api (Handle 7) demo_deletable = Some 0"
  by (simp add: ws_pipe_def ws_impl_def nb_pipe_def demo_deletable_def)

theorem delete_is_seen_witness:
  "\<exists>w'. ofc_thread_delete_impl demo_api (direct demo_api) (Handle 20) demo_deletable = Some w' \<and>
     ofc_thread_is_deleting_impl demo_api (Handle 20) w' = Some (True, w') \<and>
     pending demo_api (Handle 7) w' \<noteq> []"
  using delete_is_seen [OF demo_handle_laws demo_deletable_thread]
  by (simp add: demo_deletable_pipe demo_thread_def)

text \<open>
  C36: Joining a thread frees its cell and its handle once: afterwards the handle is dead, the
  cell is gone, exactly one \<open>pthread_join\<close> has been made, and waiting again does nothing.
\<close>

theorem join_frees_once:
  assumes "handle_laws C" and "lifecycle_laws C" and "deref C h (core w) = Some a"
    and "th_cells w a = Some T" and "th_handle T = h" and "th_detachstate T = OFC_THREAD_JOIN"
  shows "\<exists>w'. ofc_thread_wait_impl C Some h w = Some w' \<and> th_cells w' a = None \<and>
    deref C h (core w') = None \<and> calls w' = calls w @ [Pthread_join (th_thread T)] \<and>
    ofc_thread_wait_impl C Some h w' = Some w'"
proof -
  have at: "th_at C h w = Some T" using assms(3,4) by (simp add: th_at_def)
  let ?w = "w\<lparr>core := ofc_handle_unlock C h (ofc_handle_destroy C h (snd (ofc_handle_lock C h (core w)))),
             th_cells := (th_cells w)(a := None),
             calls := calls w @ [Pthread_join (th_thread T)]\<rparr>"
  have "ofc_thread_wait_impl C Some h w = Some ?w"
    using join_eq [OF assms(1) at assms(6,5)] assms(3) by simp
  moreover have "deref C h (core ?w) = None"
    using lifecycle_lawsD(2) [OF assms(2), of h "core w" h] assms(3) by simp
  ultimately show ?thesis using wait_dead [OF assms(1)] by auto
qed

theorem join_frees_once_witness:
  "\<exists>w'. ofc_thread_wait_impl demo_api Some (Handle 20) demo_deletable = Some w' \<and>
     th_cells w' 20 = None \<and> calls w' = [Pthread_join 33]"
  using join_frees_once [OF demo_handle_laws demo_lifecycle_laws, of "Handle 20" demo_deletable 20
      "demo_thread\<lparr>th_handle := Handle 20, th_wait_set := Handle 7,
                   th_detachstate := OFC_THREAD_JOIN, th_thread := 33\<rparr>"]
  by (auto simp: demo_deletable_def)

text \<open>
  The creation of a detached thread reads freed memory when the thread ends first: if the new
  thread runs \<open>ofc_thread_launch\<close> to its end between the return of \<open>pthread_create\<close> and the
  read of \<open>darwinThread->handle\<close>, that read is of the cell the thread has freed.
\<close>

theorem create_detached_race:
  assumes "\<And>k x w. run k x w = Some (r, w)" and "notify = OFC_HANDLE_NULL"
  shows "ofc_thread_create_impl C f x OFC_THREAD_DETACH notify (Some a) g (Some t)
    (ofc_thread_launch C U run a) w = None"
  using assms by (simp add: ofc_thread_create_impl_def ofc_thread_launch_def op_defs split_beta)

theorem create_detached_race_witness:
  "ofc_thread_create_impl demo_api 1 2 OFC_THREAD_DETACH OFC_HANDLE_NULL (Some 20) demo_thread (Some 33)
     (ofc_thread_launch demo_api (direct demo_api) (\<lambda>_ _ w. Some (0, w)) 20) (demo_world demo_empty) = None"
  by (rule create_detached_race [where r = 0]) simp_all

text \<open>
  \<open>ofc_sleep_impl\<close> asks \<open>usleep\<close> for 1000 times the milliseconds it is given, reduced modulo
  2^32: the product is exact up to 4294967 ms and wraps for every finite longer sleep.
\<close>

theorem sleep_exact_iff:
  assumes "ms \<noteq> inf_ms"
  shows "\<exists>us. ofc_sleep_impl inf_ms ms = Usleep us \<and> unat us = (unat ms * 1000) mod 2 ^ 32 \<and>
    (unat us = unat ms * 1000 \<longleftrightarrow> unat ms \<le> 4294967)"
proof -
  have u: "unat (ms * 1000) = (unat ms * 1000) mod 2 ^ 32" by (simp add: unat_word_ariths)
  have "(unat ms * 1000) mod 2 ^ 32 = unat ms * 1000 \<longleftrightarrow> unat ms \<le> 4294967"
  proof
    assume "(unat ms * 1000) mod 2 ^ 32 = unat ms * 1000"
    moreover have "(unat ms * 1000) mod 2 ^ 32 < 2 ^ 32" by simp
    ultimately have "unat ms * 1000 < 2 ^ 32" by simp
    then show "unat ms \<le> 4294967" by simp
  qed simp
  with u assms show ?thesis by (simp add: ofc_sleep_impl_def)
qed

theorem sleep_exact_iff_witness:
  "\<exists>us. ofc_sleep_impl (-1) 4294968 = Usleep us \<and> unat us \<noteq> unat (4294968 :: u32) * 1000"
  using sleep_exact_iff [of 4294968 "-1"] by auto

text \<open>
  A thread variable keeps its value: when the key the system hands out fits 32 bits, the
  value set through the truncated key is the one read back, and no other variable changes.
\<close>

theorem thread_variable_roundtrip:
  assumes "unat key < 2 ^ 32" and "ofc_thread_create_variable_impl key s = (var, s1)"
  shows "ofc_thread_get_variable_impl var (ofc_thread_set_variable_impl var val s1) = val \<and>
    (\<forall>other. other \<noteq> var \<longrightarrow> ofc_thread_get_variable_impl other (ofc_thread_set_variable_impl var val s1) =
       ofc_thread_get_variable_impl other s)"
proof -
  have v: "var = ucast key" "s1 = s\<lparr>tls_live := (tls_live s)(key := True), tls_value := (tls_value s)(key := 0)\<rparr>"
    using assms(2) by (simp_all add: ofc_thread_create_variable_impl_def)
  have key: "ucast (ucast key :: u32) = key"
    using assms(1) by (rule ucast_32_64_32)
  have other: "ucast other \<noteq> key" if "other \<noteq> var" for other :: u32
  proof
    assume "ucast other = key"
    then have "ucast (ucast other :: u64) = (ucast key :: u32)" by simp
    moreover have "ucast (ucast other :: u64) = other" by (rule ucast_64_32)
    ultimately show False using that v(1) by simp
  qed
  show ?thesis
    using key other by (auto simp: v ofc_thread_get_variable_impl_def ofc_thread_set_variable_impl_def)
qed

theorem thread_variable_roundtrip_witness:
  "ofc_thread_get_variable_impl 5 (ofc_thread_set_variable_impl 5 77
     (snd (ofc_thread_create_variable_impl 5 \<lparr>tls_live = (\<lambda>_. False), tls_value = (\<lambda>_. 0)\<rparr>))) = 77"
  using thread_variable_roundtrip [of 5 "\<lparr>tls_live = (\<lambda>_. False), tls_value = (\<lambda>_. 0)\<rparr>" 5
      "snd (ofc_thread_create_variable_impl 5 \<lparr>tls_live = (\<lambda>_. False), tls_value = (\<lambda>_. 0)\<rparr>)" 77]
  by (simp add: ofc_thread_create_variable_impl_def)

end
