(* ===== verification/Waitset_Correct.thy ===== *)
theory Waitset_Correct
  imports Demo_Sched
begin

text \<open>
  The properties of the scheduler's wait: what it returns, which notifications it can and
  cannot lose, what its timeout is, and that it comes back.
\<close>

section \<open>The tables given to poll\<close>

lemma tables_closed:
  assumes "waitable C Q h w" and "ws_impl C h w = Some D"
  shows "darwin_handle_list (scan_tables C Q h w) =
      \<lparr>fd = pipe_rd D, events = POLLIN, revents = 0\<rparr> # concat (map (polled C w) (members C h w))"
    and "ofc_handle_list (scan_tables C Q h w) =
      OFC_HANDLE_NULL # concat (map (\<lambda>x. map (\<lambda>_. x) (polled C w x)) (members C h w))"
    and "q_walk Q (eventQueue (scan_tables C Q h w)) = concat (map (awaited C w) (members C h w))"
    and "timer_choice C w (members C h w) (OFC_HANDLE_NULL, OFC_MAX_SCHED_WAIT C)
      (timer_event (scan_tables C Q h w), leastWait (scan_tables C Q h w))"
proof -
  have f: "fifo_laws Q" using assms(1) by (simp add: waitable_def)
  show "darwin_handle_list (scan_tables C Q h w) =
      \<lparr>fd = pipe_rd D, events = POLLIN, revents = 0\<rparr> # concat (map (polled C w) (members C h w))"
    "ofc_handle_list (scan_tables C Q h w) =
      OFC_HANDLE_NULL # concat (map (\<lambda>x. map (\<lambda>_. x) (polled C w x)) (members C h w))"
    by (simp_all add: scan_tables_def assms(2) note_lists scan_start_def)
  show "q_walk Q (eventQueue (scan_tables C Q h w)) = concat (map (awaited C w) (members C h w))"
    using f by (simp add: scan_tables_def assms(2) note_queue [OF f] scan_start_def fifo_laws_def)
  show "timer_choice C w (members C h w) (OFC_HANDLE_NULL, OFC_MAX_SCHED_WAIT C)
      (timer_event (scan_tables C Q h w), leastWait (scan_tables C Q h w))"
    using note_timer [of C w "members C h w" "scan_start C Q (pipe_rd D)" Q]
    by (simp add: scan_tables_def assms(2)) (simp add: scan_start_def)
qed

lemma tables_handles:
  assumes "waitable C Q h w" and "ws_impl C h w = Some D"
    and "0 < i" and "i < length (darwin_handle_list (scan_tables C Q h w))"
  shows "ofc_handle_list (scan_tables C Q h w) ! i \<in> set (members C h w) \<and>
    polled C w (ofc_handle_list (scan_tables C Q h w) ! i) =
      [darwin_handle_list (scan_tables C Q h w) ! i]"
proof -
  obtain j where j: "i = Suc j" using assms(3) by (cases i) auto
  from tables_aligned [of "members C h w" C w] show ?thesis
    using assms(4) by (auto simp: tables_closed [OF assms(1,2)] j dest: list_all2_nthD)
qed

lemma awaited_assoc: "e \<in> set (awaited C w h) \<Longrightarrow> hAssoc e = h"
  by (auto simp: awaited_def split: handle_type.splits if_splits)

section \<open>What PollEvent can return\<close>

lemma PollEvent_range:
  assumes "PollEvent E f es w = Some r"
  shows "fst r = OFC_HANDLE_NULL \<or> (\<exists>e \<in> set es. fst r = hAssoc e)"
proof (rule PollEvent.raw_induct [where P = "\<lambda>E f es w r. fst r = OFC_HANDLE_NULL \<or>
    (\<exists>e \<in> set es. fst r = hAssoc e)", OF _ assms], goal_cases)
  case (1 rec E f es w y)
  then show ?case
    by (auto split: option.splits if_splits dest: find_SomeD)
qed

lemma await_poll_range:
  assumes "waitable C Q h w" and "ws_impl C h w = Some D"
    and "await_poll C Q E poll d (scan_tables C Q h w) v = Some (r, v')"
    and "OFC_HANDLE_NULL \<notin> set (members C h w)"
  shows "r = OFC_HANDLE_NULL \<or> r \<in> set (members C h w)"
proof -
  let ?st = "scan_tables C Q h w"
  note t = tables_closed [OF assms(1,2)]
  have timer: "timer_event ?st = OFC_HANDLE_NULL \<or> timer_event ?st \<in> set (members C h w)"
    using t(4) by (auto simp: timer_choice_def)
  have assoc: "e \<in> set (q_walk Q (eventQueue ?st)) \<Longrightarrow> hAssoc e \<in> set (members C h w)" for e
    unfolding t(3) by (auto dest: awaited_assoc)
  from assms(3) show ?thesis
    using timer assoc tables_handles [OF assms(1,2)]
    by (auto simp: await_poll_def Let_def split: if_splits prod.splits elim!: bind_SomeE
        dest!: PollEvent_range)
qed

section \<open>Blocking\<close>

definition none_ready :: "'h core_api \<Rightarrow> handle \<Rightarrow> 'h world \<Rightarrow> bool" where
  "none_ready C h w \<longleftrightarrow> (\<forall>x \<in> set (members C h w). \<not> handle_ready C w x)"

definition awaited_all :: "'h core_api \<Rightarrow> handle \<Rightarrow> 'h world \<Rightarrow> EVENT_ELEMENT list" where
  "awaited_all C h w = concat (map (awaited C w) (members C h w))"

text \<open>\<open>poll\<close>, called by the wait on \<open>h\<close> from \<open>w\<close>, answers \<open>(n, ps)\<close> and leaves the world \<open>v\<close>.\<close>

definition poll_answers ::
  "'h core_api \<Rightarrow> 'q queue_api \<Rightarrow> 'h poll_call \<Rightarrow> handle \<Rightarrow> 'h world \<Rightarrow> int \<Rightarrow> pollfd list \<Rightarrow>
   'h world \<Rightarrow> bool" where
  "poll_answers C Q poll h w n ps v \<longleftrightarrow>
     poll (darwin_handle_list (scan_tables C Q h w)) (leastWait (scan_tables C Q h w))
       (purged C h w) = Some (n, ps, v)"

lemma members_not_null: "handle_laws C \<Longrightarrow> OFC_HANDLE_NULL \<notin> set (members C h w)"
  by (auto simp: members_def handle_lawsD(7) split: option.split)

lemma wait_blocked:
  assumes "waitable C Q h w" and "none_ready C h w" and "ws_addr C h w = Some d"
  shows "ofc_waitset_wait_impl C Q (event_impl C) poll h w =
    await_poll C Q (event_impl C) poll d (scan_tables C Q h w) (purged C h w)"
proof -
  have "List.find (handle_ready C w) (members C h w) = None"
    using assms(2) by (simp add: none_ready_def find_None_iff)
  then show ?thesis by (simp add: wait_scan [OF assms(1,3)])
qed

text \<open>When the pipe is readable, the wait returns what the pipe's contents amount to.\<close>

lemma wait_notified:
  assumes "waitable C Q h w" and "none_ready C h w"
    and "poll_answers C Q poll h w n (p # ps) v" and "0 < n" and "revents p \<noteq> 0"
    and "ws_addr C h w = Some d" and "dws_cells v d = Some D" and "nb_pipe D v = Some k"
    and "pipes v k = Some q" and "\<forall>e \<in> set (awaited_all C h w). ev_usable C (hEvent e) v"
    and "poll_outcome (awaited_all C h w) (\<lambda>h. ev_signalled C h v) (pbuf q) = (r, c, buf)"
  shows "ofc_waitset_wait_impl C Q (event_impl C) poll h w =
    (let v' = v\<lparr>pipes := (pipes v)(k \<mapsto> q\<lparr>pbuf := buf\<rparr>)\<rparr> in
     Some (r, case c of None \<Rightarrow> v' | Some ev \<Rightarrow> consumed C ev v'))"
proof -
  from assms(1) obtain D0 where l: "handle_laws C" "ws_impl C h w = Some D0" by (rule waitableE)
  note t = tables_closed [OF assms(1) l(2)]
  let ?es = "awaited_all C h w"
  have es: "q_walk Q (eventQueue (scan_tables C Q h w)) = ?es" by (simp add: t(3) awaited_all_def)
  have us: "\<forall>e \<in> set ?es. ev_usable C (hEvent e) v \<and> hAssoc e \<noteq> OFC_HANDLE_NULL"
    using assms(10) members_not_null [OF l(1)] by (auto simp: awaited_all_def dest: awaited_assoc)
  let ?v = "v\<lparr>pipes := (pipes v)(k \<mapsto> q\<lparr>pbuf := buf\<rparr>)\<rparr>"
  have "PollEvent (event_impl C) (pipe_rd D) ?es v =
      Some (r, case c of None \<Rightarrow> ?v | Some ev \<Rightarrow> consumed C ev ?v)"
    using darwin_poll.PollEvent_outcome [OF assms(8,9) us assms(11)]
      poll_outcome_cases [OF assms(11)] us
    by (auto simp: Let_def consume_eq)
  then show ?thesis
    using assms(3-5,7) by (simp add: wait_blocked [OF assms(1,2,6)] await_poll_def
      poll_answers_def es Let_def)
qed

section \<open>What a wait forgets\<close>

text \<open>
  The wait does not depend on what its pipe held, nor on any thread's cell; neither does
  anything it looks at before \<open>poll\<close>.
\<close>

definition refilled :: "nat \<Rightarrow> kpipe \<Rightarrow> handle list \<Rightarrow> 'h world \<Rightarrow> 'h world" where
  "refilled k q b w = w\<lparr>pipes := (pipes w)(k \<mapsto> q\<lparr>pbuf := b\<rparr>)\<rparr>"

lemma signal_refills:
  assumes "handle_laws C" and "ws_pipe C h w = Some k" and "pipes w k = Some q"
    and "ofc_waitset_signal_impl C h e w = Some w1"
  shows "\<exists>b. w1 = refilled k q b w"
proof (cases "length (pbuf q) < pcap q")
  case True
  then show ?thesis using assms by (auto simp: signal_eq refilled_def)
next
  case False
  then have "w1 = refilled k q (pbuf q) w"
    using assms by (auto simp: signal_eq refilled_def fun_upd_idem)
  then show ?thesis by blast
qed

lemma wait_forgets:
  assumes "waitable C Q h w" and "ws_pipe C h w = Some k" and "pipes w k = Some q"
    and v_eq: "v = (refilled k q b w)\<lparr>th_cells := m\<rparr>"
  shows "waitable C Q h v"
    and "purged C h v = (purged C h w)\<lparr>th_cells := m\<rparr>"
    and "m = th_cells w \<Longrightarrow> ofc_waitset_wait_impl C Q (event_impl C) poll h v =
      ofc_waitset_wait_impl C Q (event_impl C) poll h w"
    and "none_ready C h v = none_ready C h w" and "scan_tables C Q h v = scan_tables C Q h w"
    and "ws_addr C h v = ws_addr C h w" and "awaited_all C h v = awaited_all C h w"
proof -
  from assms(1-3) obtain D where l: "handle_laws C" "fifo_laws Q" "ws_impl C h w = Some D"
    "nb_pipe D w = Some k" and sc: "\<forall>x \<in> set (members C h w). scannable C w x"
    by (auto elim!: waitableE)
  have cap: "0 < pcap q" using nb_pipe_pipe [OF l(4)] assms(3) by auto
  have v: "v = w\<lparr>pipes := (pipes w)(k \<mapsto> q\<lparr>pbuf := b\<rparr>), th_cells := m\<rparr>"
    by (simp add: v_eq refilled_def)
  have view: "same_view C v w" by (simp add: same_view_def v)
  have mem: "members C h v = members C h w" and im: "ws_impl C h v = ws_impl C h w"
    by (simp_all add: members_def ws_impl_def v cong: option.case_cong)
  show ad: "ws_addr C h v = ws_addr C h w" by (simp add: ws_addr_def v)
  have p1: "ws_pipe C h v = Some k" "pipes v k = Some (q\<lparr>pbuf := b\<rparr>)"
    using l cap by (auto simp: ws_pipe_def im) (auto simp: v nb_pipe_Some)
  show pg: "purged C h v = (purged C h w)\<lparr>th_cells := m\<rparr>"
    using p1 assms(2,3) by (simp add: purged_def) (simp add: v)
  show wt: "waitable C Q h v"
    using l sc p1 by (simp add: waitable_def mem same_view_reads(2) [OF view])
  show tb: "scan_tables C Q h v = scan_tables C Q h w"
    by (simp add: scan_tables_def mem im same_view_reads(6) [OF view] split: option.split)
  show "none_ready C h v = none_ready C h w"
    by (simp add: none_ready_def mem same_view_reads(1) [OF view])
  show "awaited_all C h v = awaited_all C h w"
    by (simp add: awaited_all_def mem same_view_reads(3) [OF view])
  assume m: "m = th_cells w"
  have "(purged C h w)\<lparr>th_cells := th_cells w\<rparr> = purged C h w"
    using assms(2,3) by (simp add: purged_def)
  moreover from assms(1) obtain d where "ws_addr C h w = Some d" by (rule waitableE)
  ultimately show "ofc_waitset_wait_impl C Q (event_impl C) poll h v =
      ofc_waitset_wait_impl C Q (event_impl C) poll h w"
    using ad pg m by (simp add: wait_scan [OF wt] wait_scan [OF assms(1)] mem tb
        same_view_reads(1) [OF view] cong: option.case_cong)
qed

section \<open>Properties\<close>

text \<open>
  C3: A wait on a set with a ready member (an event that is set, a wait queue that is not empty,
  an overlapped operation that has completed, a timer that has expired) returns without calling
  \<open>poll\<close>: it returns the first ready member in the order of the set's queue, an auto-reset
  event and no other is reset by that, and the notifications that were pending are gone.
\<close>

theorem wait_first_ready:
  assumes "waitable C Q h w"
    and "List.find (handle_ready C w) (members C h w) = Some x"
  shows "ofc_waitset_wait_impl C Q (event_impl C) poll h w = Some (x, taken C (purged C h w) x)"
proof -
  from assms(1) obtain d where "ws_addr C h w = Some d" by (rule waitableE)
  with assms show ?thesis by (simp add: wait_scan)
qed

theorem wait_first_ready_witness:
  "ofc_waitset_wait_impl demo_api demo_fifo (event_impl demo_api) (\<lambda>_ _ _. None) (Handle 7)
     (demo_sched True [Handle 5]) = Some (Handle 5, demo_sched False [])"
proof -
  have "consumed demo_api (Handle 5) (demo_sched True []) = demo_sched False []"
    by (simp add: consumed_def ev_kind_def sched_ev ev_write_def) (simp add: demo_sched_def)
  then have "taken demo_api (purged demo_api (Handle 7) (demo_sched True [Handle 5])) (Handle 5) =
      demo_sched False []"
    by (simp add: sched_purged taken_def)
  with wait_first_ready [OF sched_waitable, of True "[Handle 5]" "Handle 5"] show ?thesis
    by (simp add: sched_members sched_ready)
qed

text \<open>
  C19: A wait returns the null handle or a handle that was a member of the set when the wait
  began, whatever \<open>poll\<close> answers and whatever other threads do while it blocks.
\<close>

theorem wait_returns_member:
  assumes "waitable C Q h w"
    and "ofc_waitset_wait_impl C Q (event_impl C) poll h w = Some (r, w')"
  shows "r = OFC_HANDLE_NULL \<or> r \<in> set (members C h w)"
proof -
  from assms(1) obtain D d where l: "handle_laws C" "ws_impl C h w = Some D" "ws_addr C h w = Some d"
    by (rule waitableE)
  with assms await_poll_range [OF assms(1) l(2)] members_not_null [OF l(1)] show ?thesis
    by (auto simp: wait_scan [OF assms(1) l(3)] split: option.splits dest: find_SomeD)
qed

theorem wait_returns_member_witness:
  "Handle 5 = OFC_HANDLE_NULL \<or>
   Handle 5 \<in> set (members demo_api (Handle 7) (demo_sched True [Handle 5]))"
proof -
  have "ofc_waitset_wait_impl demo_api demo_fifo (event_impl demo_api) (\<lambda>_ _ _. None) (Handle 7)
      (demo_sched True [Handle 5]) =
      Some (Handle 5, taken demo_api (purged demo_api (Handle 7) (demo_sched True [Handle 5])) (Handle 5))"
    using wait_scan [OF sched_waitable sched_addr] by (simp add: sched_members sched_ready)
  from wait_returns_member [OF sched_waitable this] show ?thesis .
qed

text \<open>
  C2: No event is lost to the race between the scan and \<open>poll\<close>. If no member was ready when
  the wait scanned, and another thread sets an event that belongs to the set and that the wait
  awaits (a member, or the event behind a wait queue or an overlapped operation) before \<open>poll\<close>
  reports the pipe readable, then the wait returns the member that stands for the event; an
  auto-reset event comes back reset and nothing is left in the pipe.
\<close>

theorem no_lost_event:
  assumes "waitable C Q h w" and "none_ready C h w"
    and "List.find (\<lambda>e. hEvent e = ev) (awaited_all C h w) = Some e"
    and "\<forall>e \<in> set (awaited_all C h w). ev_usable C (hEvent e) w"
    and "deref C ev (core w) \<noteq> None" and "ofc_handle_get_wait_set C ev (core w) = h"
    and "ofc_event_set_impl C ev (purged C h w) = Some v"
    and "poll_answers C Q poll h w n (p # ps) v" and "0 < n" and "revents p \<noteq> 0"
  shows "ofc_waitset_wait_impl C Q (event_impl C) poll h w =
    Some (hAssoc e, consumed C ev (ev_write C ev True (purged C h w)))"
proof -
  from assms(1) obtain k q D d where l: "handle_laws C" "ws_pipe C h w = Some k" "pipes w k = Some q"
    "ws_impl C h w = Some D" "nb_pipe D w = Some k" "ws_addr C h w = Some d" "dws_cells w d = Some D"
    and pv: "purged C h w = w\<lparr>pipes := (pipes w)(k \<mapsto> q\<lparr>pbuf := []\<rparr>)\<rparr>"
    by (rule waitableE)
  let ?u = "purged C h w"
  let ?q = "q\<lparr>pbuf := [ev]\<rparr>"
  have cap: "0 < pcap q" using nb_pipe_pipe [OF l(5)] l(3) by auto
  have u: "ws_pipe C h ?u = Some k" "pipes ?u k = Some (q\<lparr>pbuf := []\<rparr>)" "core ?u = core w"
    using ws_pipe_update [OF l(2), of "q\<lparr>pbuf := []\<rparr>"] cap by (simp_all add: pv)
  have e: "e \<in> set (awaited_all C h w)" "hEvent e = ev" using find_SomeD [OF assms(3)] by auto
  have evu: "ev_usable C ev ?u" using assms(4) e by (auto simp: pv)
  have h: "h \<noteq> OFC_HANDLE_NULL"
    using ws_pipe_live [OF l(2)] handle_lawsD(6) [OF l(1)] by auto
  have ev: "ev \<noteq> OFC_HANDLE_NULL" using assms(5) handle_lawsD(6) [OF l(1)] by auto
  have v: "v = ev_write C ev True (w\<lparr>pipes := (pipes w)(k \<mapsto> ?q)\<rparr>)"
    using event_set_eq [OF evu] assms(5-7) h cap
    by (simp add: u Let_def signal_eq [OF l(1) u(1,2)]) (simp add: pv)
  have at: "ev_at C ev w \<noteq> None" using assms(5) evu by (auto simp: ev_usable_def ev_at_def pv)
  have "ev_signalled C ev v" using at by (simp add: v ev_signalled_write [OF l(1)] ev_at_def)
  with ev e assms(3) have out: "poll_outcome (awaited_all C h w) (\<lambda>h. ev_signalled C h v) (pbuf ?q) =
      (hAssoc e, Some ev, [])" by simp
  have "nb_pipe D v = Some k" using l(5) cap by (auto simp: v nb_pipe_Some frame)
  moreover have "\<forall>e \<in> set (awaited_all C h w). ev_usable C (hEvent e) v"
    using assms(4) by (simp add: v ev_usable_write)
  moreover have "v\<lparr>pipes := (pipes v)(k \<mapsto> ?q\<lparr>pbuf := []\<rparr>)\<rparr> = ev_write C ev True ?u"
    by (simp add: v pv ev_write_def split: option.split)
  ultimately show ?thesis
    using wait_notified [OF assms(1,2,8-10) l(6) _ _ _ _ out] l(7)
    by (simp add: v frame Let_def)
qed

theorem no_lost_event_witness:
  "ofc_waitset_wait_impl demo_api demo_fifo (event_impl demo_api)
     (demo_poll (ofc_event_set_impl demo_api (Handle 5))) (Handle 7) (demo_sched False [Handle 5]) =
   Some (Handle 5, demo_sched False [])"
proof -
  have none: "none_ready demo_api (Handle 7) (demo_sched False [Handle 5])"
    by (simp add: none_ready_def sched_members sched_ready)
  have aw: "awaited_all demo_api (Handle 7) (demo_sched False [Handle 5]) =
      [\<lparr>hEvent = Handle 5, hAssoc = Handle 5\<rparr>]"
    by (simp add: awaited_all_def sched_members sched_awaited)
  have "consumed demo_api (Handle 5) (ev_write demo_api (Handle 5) True
      (purged demo_api (Handle 7) (demo_sched False [Handle 5]))) = demo_sched False []"
    by (simp add: sched_purged sched_write consumed_def ev_kind_def sched_ev)
  with no_lost_event [OF sched_waitable none, of "Handle 5" "\<lparr>hEvent = Handle 5, hAssoc = Handle 5\<rparr>"
      "demo_sched True [Handle 5]" "demo_poll (ofc_event_set_impl demo_api (Handle 5))" 1] show ?thesis
    by (simp add: aw sched_usable sched_purged sched_set poll_answers_def demo_poll_def POLLIN_def)
qed

text \<open>
  A wake-up sent before a wait begins has no effect on it: the wait purges the pipe first,
  so it returns exactly what it would have returned without the wake-up.
\<close>

theorem wake_before_wait_lost:
  assumes "waitable C Q h w" and "ofc_waitset_wake_impl C h w = Some w1"
  shows "ofc_waitset_wait_impl C Q (event_impl C) poll h w1 =
    ofc_waitset_wait_impl C Q (event_impl C) poll h w"
proof -
  from assms(1) obtain k q D where l: "handle_laws C" "ws_pipe C h w = Some k" "pipes w k = Some q"
    "nb_pipe D w = Some k" by (rule waitableE)
  obtain b where "w1 = refilled k q b w"
    using signal_refills [OF l(1-3)] assms(2) unfolding ofc_waitset_wake_impl_def by blast
  then show ?thesis
    using wait_forgets(3) [OF assms(1) l(2,3), where v = w1 and b = b and m = "th_cells w"] by (simp add: refilled_def)
qed

theorem wake_before_wait_lost_witness:
  "ofc_waitset_wait_impl demo_api demo_fifo (event_impl demo_api) (\<lambda>_ _ v. Some (0, [], v)) (Handle 7)
     (demo_sched False [OFC_HANDLE_NULL]) =
   ofc_waitset_wait_impl demo_api demo_fifo (event_impl demo_api) (\<lambda>_ _ v. Some (0, [], v)) (Handle 7)
     (demo_sched False [])"
  by (rule wake_before_wait_lost [OF sched_waitable])
    (simp add: ofc_waitset_wake_impl_def sched_signal)

text \<open>
  C22: A wake-up sent while the wait is blocked ends it: the wait returns the null handle and
  leaves nothing in the pipe.
\<close>

theorem wake_interrupts_wait:
  assumes "waitable C Q h w" and "none_ready C h w"
    and "\<forall>e \<in> set (awaited_all C h w). ev_usable C (hEvent e) w"
    and "ofc_waitset_wake_impl C h (purged C h w) = Some v"
    and "poll_answers C Q poll h w n (p # ps) v" and "0 < n" and "revents p \<noteq> 0"
  shows "ofc_waitset_wait_impl C Q (event_impl C) poll h w = Some (OFC_HANDLE_NULL, purged C h w)"
proof -
  from assms(1) obtain k q D d where l: "handle_laws C" "ws_pipe C h w = Some k" "pipes w k = Some q"
    "ws_impl C h w = Some D" "nb_pipe D w = Some k" "ws_addr C h w = Some d" "dws_cells w d = Some D"
    and pv: "purged C h w = w\<lparr>pipes := (pipes w)(k \<mapsto> q\<lparr>pbuf := []\<rparr>)\<rparr>"
    by (rule waitableE)
  let ?q = "q\<lparr>pbuf := [OFC_HANDLE_NULL]\<rparr>"
  have cap: "0 < pcap q" using nb_pipe_pipe [OF l(5)] l(3) by auto
  have u: "ws_pipe C h (purged C h w) = Some k" "pipes (purged C h w) k = Some (q\<lparr>pbuf := []\<rparr>)"
    using ws_pipe_update [OF l(2), of "q\<lparr>pbuf := []\<rparr>"] cap by (simp_all add: pv)
  have v: "v = w\<lparr>pipes := (pipes w)(k \<mapsto> ?q)\<rparr>"
    using assms(4) cap by (simp add: ofc_waitset_wake_impl_def signal_eq [OF l(1) u]) (simp add: pv)
  have "poll_outcome (awaited_all C h w) (\<lambda>h. ev_signalled C h v) (pbuf ?q) =
      (OFC_HANDLE_NULL, None, [])" by simp
  from wait_notified [OF assms(1,2,5-7) l(6) _ _ _ _ this] l(7) l(5) cap assms(3) show ?thesis
    by (simp add: v pv Let_def)
qed

theorem wake_interrupts_wait_witness:
  "ofc_waitset_wait_impl demo_api demo_fifo (event_impl demo_api)
     (demo_poll (ofc_waitset_wake_impl demo_api (Handle 7))) (Handle 7) (demo_sched False []) =
   Some (OFC_HANDLE_NULL, demo_sched False [])"
proof -
  have none: "none_ready demo_api (Handle 7) (demo_sched False [])"
    by (simp add: none_ready_def sched_members sched_ready)
  have aw: "awaited_all demo_api (Handle 7) (demo_sched False []) =
      [\<lparr>hEvent = Handle 5, hAssoc = Handle 5\<rparr>]"
    by (simp add: awaited_all_def sched_members sched_awaited)
  from wake_interrupts_wait [OF sched_waitable none, of "demo_sched False [OFC_HANDLE_NULL]"
      "demo_poll (ofc_waitset_wake_impl demo_api (Handle 7))" 1] show ?thesis
    by (simp add: aw sched_usable sched_purged sched_signal ofc_waitset_wake_impl_def
        poll_answers_def demo_poll_def POLLIN_def)
qed

text \<open>
  C20: A wait that times out returns the timer of the set with the least remaining time, and
  that time was the timeout given to \<open>poll\<close>; when no timer of the set is due before
  \<open>OFC_MAX_SCHED_WAIT\<close>, the timeout was \<open>OFC_MAX_SCHED_WAIT\<close> and the null handle is returned.
\<close>

theorem wait_times_out:
  assumes "waitable C Q h w" and "none_ready C h w" and "poll_answers C Q poll h w 0 ps v"
  shows "\<exists>r. ofc_waitset_wait_impl C Q (event_impl C) poll h w = Some (r, v) \<and>
    (if \<exists>x \<in> set (members C h w). timed C w x \<and> timer_time C w x < OFC_MAX_SCHED_WAIT C
     then r \<in> set (members C h w) \<and> timed C w r \<and>
          leastWait (scan_tables C Q h w) = timer_time C w r \<and>
          (\<forall>x \<in> set (members C h w). timed C w x \<longrightarrow> timer_time C w r \<le> timer_time C w x)
     else r = OFC_HANDLE_NULL \<and> leastWait (scan_tables C Q h w) = OFC_MAX_SCHED_WAIT C)"
proof -
  from assms(1) obtain D d where l: "handle_laws C" "ws_impl C h w = Some D" "ws_addr C h w = Some d"
    by (rule waitableE)
  let ?st = "scan_tables C Q h w"
  have "ofc_waitset_wait_impl C Q (event_impl C) poll h w = Some (timer_event ?st, v)"
    using assms(3) by (auto simp: wait_blocked [OF assms(1,2) l(3)] await_poll_def poll_answers_def)
  moreover have "timer_choice C w (members C h w) (OFC_HANDLE_NULL, OFC_MAX_SCHED_WAIT C)
      (timer_event ?st, leastWait ?st)"
    by (rule tables_closed(4) [OF assms(1) l(2)])
  then have "if \<exists>x \<in> set (members C h w). timed C w x \<and> timer_time C w x < OFC_MAX_SCHED_WAIT C
     then timer_event ?st \<in> set (members C h w) \<and> timed C w (timer_event ?st) \<and>
          leastWait ?st = timer_time C w (timer_event ?st) \<and>
          (\<forall>x \<in> set (members C h w). timed C w x \<longrightarrow>
             timer_time C w (timer_event ?st) \<le> timer_time C w x)
     else timer_event ?st = OFC_HANDLE_NULL \<and> leastWait ?st = OFC_MAX_SCHED_WAIT C"
    by (fastforce simp: timer_choice_def)
  ultimately show ?thesis by blast
qed

theorem wait_times_out_witness:
  "\<exists>r. ofc_waitset_wait_impl demo_api demo_fifo (event_impl demo_api) (\<lambda>_ _ v. Some (0, [], v))
         (Handle 7) (demo_sched False []) = Some (r, demo_sched False []) \<and> r = Handle 6"
proof -
  have none: "none_ready demo_api (Handle 7) (demo_sched False [])"
    by (simp add: none_ready_def sched_members sched_ready)
  have "poll_answers demo_api demo_fifo (\<lambda>_ _ v. Some (0, [], v)) (Handle 7) (demo_sched False [])
      0 [] (demo_sched False [])"
    by (simp add: poll_answers_def sched_purged)
  from wait_times_out [OF sched_waitable none this] show ?thesis
    by (auto simp: sched_members timed_def timer_time_def)
qed

text \<open>
  C21: When \<open>poll\<close> reports a descriptor other than the pipe first, the wait returns the member
  whose descriptor that is and stores the reported bits in the socket behind it.
\<close>

theorem wait_ready_descriptor:
  assumes "waitable C Q h w" and "none_ready C h w" and "poll_answers C Q poll h w n ps v"
    and "0 < n" and "length ps = length (darwin_handle_list (scan_tables C Q h w))"
    and "i = first_index (\<lambda>p. revents p \<noteq> 0) ps" and "0 < i" and "i < length ps"
    and "x = ofc_handle_list (scan_tables C Q h w) ! i"
    and "sk_usable C (ofc_socket_get_impl C x (core v)) v"
  shows "x \<in> set (members C h w) \<and> polled C w x = [darwin_handle_list (scan_tables C Q h w) ! i] \<and>
    ofc_waitset_wait_impl C Q (event_impl C) poll h w =
      Some (x, sk_write C (ofc_socket_get_impl C x (core v))
                 (sk_revents_update (\<lambda>_. revents (ps ! i))) v)"
proof -
  from assms(1) obtain D d where l: "ws_impl C h w = Some D" "ws_addr C h w = Some d"
    by (rule waitableE)
  have "revents (ps ! i) \<noteq> 0" using first_index_sat [of "\<lambda>p. revents p \<noteq> 0" ps] assms(6,8) by simp
  then show ?thesis
    using assms(3-10) tables_handles [OF assms(1) l(1), of i]
    by (auto simp: wait_blocked [OF assms(1,2) l(2)] await_poll_def poll_answers_def Let_def
        set_event_eq)
qed

theorem wait_ready_descriptor_witness:
  "ofc_waitset_wait_impl demo_api demo_fifo (event_impl demo_api)
     (\<lambda>ps t v. Some (1, [ps ! 0, (ps ! 1)\<lparr>revents := POLLIN\<rparr>], v)) (Handle 7) (demo_sock_sched 0) =
   Some (Handle 8, demo_sock_sched POLLIN)"
proof -
  let ?poll = "\<lambda>ps t v. Some (1 :: int, [ps ! 0, (ps ! 1)\<lparr>revents := POLLIN\<rparr>], v)"
  have none: "none_ready demo_api (Handle 7) (demo_sock_sched 0)"
    by (simp add: none_ready_def sock_members sock_ready)
  have t: "darwin_handle_list (scan_tables demo_api demo_fifo (Handle 7) (demo_sock_sched 0)) =
      [\<lparr>fd = 3, events = POLLIN, revents = 0\<rparr>, \<lparr>fd = 11, events = POLLIN, revents = 0\<rparr>]"
    "ofc_handle_list (scan_tables demo_api demo_fifo (Handle 7) (demo_sock_sched 0)) =
      [OFC_HANDLE_NULL, Handle 8]"
    using tables_closed(1,2) [OF sock_waitable [of 0] sock_impl] by (simp_all add: sock_members sock_polled)
  let ?ps = "[\<lparr>fd = 3, events = POLLIN, revents = 0\<rparr>, \<lparr>fd = 11, events = POLLIN, revents = POLLIN\<rparr>]"
  have ans: "poll_answers demo_api demo_fifo ?poll (Handle 7) (demo_sock_sched 0) 1 ?ps
      (demo_sock_sched 0)"
    by (simp add: poll_answers_def sock_purged t)
  have "sk_write demo_api (Handle 8) (sk_revents_update (\<lambda>_. POLLIN)) (demo_sock_sched 0) =
      demo_sock_sched POLLIN"
    by (simp add: sk_write_def) (simp add: demo_sock_sched_def demo_socket_def)
  moreover have "POLLIN \<noteq> 0" by (simp add: POLLIN_def)
  then have "Suc 0 = first_index (\<lambda>p. revents p \<noteq> 0) ?ps" by simp
  then have "ofc_waitset_wait_impl demo_api demo_fifo (event_impl demo_api) ?poll (Handle 7)
      (demo_sock_sched 0) = Some (Handle 8, sk_write demo_api
        (ofc_socket_get_impl demo_api (Handle 8) (core (demo_sock_sched 0)))
        (sk_revents_update (\<lambda>_. revents (?ps ! Suc 0))) (demo_sock_sched 0))"
    by (intro wait_ready_descriptor [OF sock_waitable none ans, THEN conjunct2, THEN conjunct2])
      (simp_all add: t sock_usable)
  ultimately show ?thesis by simp
qed

text \<open>
  C18: A wait comes back. If \<open>poll\<close> returns, to a world in which the wait set still has its
  pipe and the members still lead to their cells, then \<open>ofc_waitset_wait_impl\<close> returns: purging
  the pipe, reading the notifications and emptying the local queue all end.
\<close>

theorem wait_comes_back:
  assumes "waitable C Q h w" and "ws_addr C h w = Some d"
    and "poll_answers C Q poll h w n ps v"
    and "dws_cells v d = Some D" and "nb_pipe D v = Some k"
    and "\<forall>e \<in> set (awaited_all C h w). ev_usable C (hEvent e) v"
    and "\<forall>x \<in> set (members C h w). polled C w x \<noteq> [] \<longrightarrow>
           sk_usable C (ofc_socket_get_impl C x (core v)) v"
  shows "\<exists>r w'. ofc_waitset_wait_impl C Q (event_impl C) poll h w = Some (r, w')"
proof (cases "none_ready C h w")
  case False
  then obtain x where "List.find (handle_ready C w) (members C h w) = Some x"
    by (cases "List.find (handle_ready C w) (members C h w)") (auto simp: none_ready_def find_None_iff)
  then show ?thesis by (simp add: wait_scan [OF assms(1,2)])
next
  case True
  from assms(1) obtain D0 where l: "handle_laws C" "ws_impl C h w = Some D0" by (rule waitableE)
  note t = tables_closed [OF assms(1) l(2)]
  obtain q where q: "pipes v k = Some q" using nb_pipe_pipe [OF assms(5)] by blast
  obtain r c buf where out: "poll_outcome (awaited_all C h w) (\<lambda>h. ev_signalled C h v) (pbuf q) =
      (r, c, buf)" by (rule prod_cases3)
  have us: "\<forall>e \<in> set (awaited_all C h w). ev_usable C (hEvent e) v \<and> hAssoc e \<noteq> OFC_HANDLE_NULL"
    using assms(6) members_not_null [OF l(1)] by (auto simp: awaited_all_def dest: awaited_assoc)
  have "\<exists>x. PollEvent (event_impl C) (pipe_rd D) (awaited_all C h w) v = Some x"
    using darwin_poll.PollEvent_outcome [OF assms(5) q us out] poll_outcome_cases [OF out] us
    by (auto simp: Let_def consume_eq split: option.splits)
  moreover have "sk_usable C (ofc_socket_get_impl C (ofc_handle_list (scan_tables C Q h w) ! i) (core v)) v"
    if "0 < i" "i < length (darwin_handle_list (scan_tables C Q h w))" for i
    using tables_handles [OF assms(1) l(2) that] assms(7) by auto
  ultimately show ?thesis
    using assms(3,4) t(3) by (auto simp: wait_blocked [OF assms(1) True assms(2)] await_poll_def
      poll_answers_def Let_def awaited_all_def set_event_eq)
qed

theorem wait_comes_back_witness:
  "\<exists>r w'. ofc_waitset_wait_impl demo_api demo_fifo (event_impl demo_api)
     (demo_poll (ofc_event_set_impl demo_api (Handle 5))) (Handle 7) (demo_sched False []) = Some (r, w')"
proof -
  have aw: "awaited_all demo_api (Handle 7) (demo_sched False []) =
      [\<lparr>hEvent = Handle 5, hAssoc = Handle 5\<rparr>]"
    by (simp add: awaited_all_def sched_members sched_awaited)
  have ans: "poll_answers demo_api demo_fifo (demo_poll (ofc_event_set_impl demo_api (Handle 5)))
      (Handle 7) (demo_sched False []) 1 [\<lparr>fd = 3, events = POLLIN, revents = POLLIN\<rparr>]
      (demo_sched True [Handle 5])"
    by (simp add: poll_answers_def sched_purged demo_poll_def sched_set)
  show ?thesis
    by (rule wait_comes_back [OF sched_waitable sched_addr ans, of "\<lparr>pipe_rd = 3, pipe_wr = 4\<rparr>" 0])
      (simp_all add: nb_pipe_def aw sched_usable sched_members sched_polled)
qed

end
