(* ===== verification/Stop_Request.thy ===== *)
theory Stop_Request
  imports Thread_Correct Waitset_Correct
begin

text \<open>
  Stopping a thread that waits on a wait set: \<open>ofc_thread_delete_impl\<close> of
  \<open>src/thread_darwin.c\<close> against \<open>ofc_waitset_wait_impl\<close> of \<open>src/waitset_darwin.c\<close>. The request
  writes \<open>deleteMe\<close> and wakes the set the thread is attached to; it takes effect when it comes
  while the thread is blocked in \<open>poll\<close>, and has no effect on the wait when it comes before it.
\<close>

section \<open>The request\<close>

text \<open>What a request does to a world whose set has a pipe: the flag, and perhaps a notification.\<close>

lemma delete_refills:
  assumes "handle_laws C" and "th_at C t w = Some T" and "ws_pipe C (th_wait_set T) w = Some k"
    and "pipes w k = Some q" and "ofc_thread_delete_impl C (direct C) t w = Some w1"
  obtains b where "w1 = th_update C t (deleteMe_update (\<lambda>_. True)) (refilled k q b w)"
    and "ofc_waitset_signal_impl C (th_wait_set T) OFC_HANDLE_NULL w = Some (refilled k q b w)"
proof -
  have nn: "th_wait_set T \<noteq> OFC_HANDLE_NULL"
    using ws_pipe_live [OF assms(3)] handle_lawsD(6) [OF assms(1)] by auto
  obtain v where v: "ofc_waitset_signal_impl C (th_wait_set T) OFC_HANDLE_NULL w = Some v"
    "w1 = th_update C t (deleteMe_update (\<lambda>_. True)) v"
    using assms(5) nn by (auto simp: delete_eq [OF assms(1,2)] ofc_waitset_wake_impl_def)
  then show thesis using signal_refills [OF assms(1,3,4) v(1)] that by blast
qed

lemma pending_purged:
  assumes "waitable C Q h w"
  shows "pending C h (purged C h w) = []"
proof -
  from assms obtain k q D where l: "ws_pipe C h w = Some k" "pipes w k = Some q" "nb_pipe D w = Some k"
    by (rule waitableE)
  then have "ws_pipe C h (purged C h w) = Some k" "pipes (purged C h w) k = Some (q\<lparr>pbuf := []\<rparr>)"
    using ws_pipe_update [OF l(1), of "q\<lparr>pbuf := []\<rparr>"] nb_pipe_pipe [OF l(3)] by (auto simp: purged_def)
  then show ?thesis by (simp add: pending_def pipe_items_def)
qed

lemma th_update_cells:
  assumes "deref C t (core w) = Some a" and "th_cells w a = Some T"
  shows "th_update C t f w = w\<lparr>th_cells := (th_cells w)(a \<mapsto> f T)\<rparr>"
  using assms by (simp add: th_update_def put_thread_def)

lemma th_at_cells: "core v = core w \<Longrightarrow> th_cells v = th_cells w \<Longrightarrow> th_at C t v = th_at C t w"
  by (simp add: th_at_def)

section \<open>A thread on a wait set\<close>

text \<open>Thread 20 on wait set 7 of \<open>Demo_Sched\<close>, whose members are not ready.\<close>

lemma deletable_sel [simp]:
  "core demo_deletable = sched_core\<lparr>d_live := (d_live sched_core)(20 := Some OFC_HANDLE_THREAD)\<rparr>"
  "ev_cells demo_deletable = ev_cells (demo_sched False [])"
  "ws_cells demo_deletable = ws_cells (demo_sched False [])"
  "pipes demo_deletable = pipes (demo_sched False [])"
  by (simp_all add: demo_deletable_def del: demo_sched_sel)

lemma stop_world:
  "ws_pipe demo_api (Handle 7) demo_deletable = Some 0"
  "members demo_api (Handle 7) demo_deletable = [Handle 5, Handle 6]"
  "ev_at demo_api (Handle 5) demo_deletable =
     Some \<lparr>eventType = OFC_EVENT_AUTO, signalled = False, mutex_held = False\<rparr>"
  by (rule demo_deletable_pipe) (simp_all add: members_def ev_at_def)

lemma stop_waitable: "waitable demo_api demo_fifo (Handle 7) demo_deletable"
  by (simp add: waitable_def stop_world scannable_def ev_usable_def)

lemma stop_none_ready: "none_ready demo_api (Handle 7) demo_deletable"
  by (simp add: none_ready_def stop_world handle_ready_def ev_signalled_def)

lemma stop_awaited: "e \<in> set (awaited_all demo_api (Handle 7) demo_deletable) \<Longrightarrow>
    ev_usable demo_api (hEvent e) demo_deletable"
  by (auto simp: awaited_all_def stop_world awaited_def ev_usable_def split: if_splits)

section \<open>Properties\<close>

text \<open>
  C12: A thread blocked on its wait set can be stopped: if another thread calls
  \<open>ofc_thread_delete_impl\<close> for it while it is inside \<open>poll\<close>, and \<open>poll\<close> then reports the pipe
  readable, the wait comes back with the null handle, nothing is left in the pipe, and
  \<open>ofc_thread_is_deleting_impl\<close> answers true.
\<close>

theorem stop_request_seen:
  assumes "waitable C Q h w" and "none_ready C h w"
    and "\<forall>e \<in> set (awaited_all C h w). ev_usable C (hEvent e) w"
    and "th_at C t w = Some T" and "th_wait_set T = h"
    and "ofc_thread_delete_impl C (direct C) t (purged C h w) = Some v"
    and "poll_answers C Q poll h w n (p # ps) v" and "0 < n" and "revents p \<noteq> 0"
  shows "\<exists>w'. ofc_waitset_wait_impl C Q (event_impl C) poll h w = Some (OFC_HANDLE_NULL, w') \<and>
    pending C h w' = [] \<and> ofc_thread_is_deleting_impl C t w' = Some (True, w')"
proof -
  from assms(1) obtain k q D d where l: "handle_laws C" "ws_pipe C h w = Some k" "pipes w k = Some q"
    "ws_impl C h w = Some D" "nb_pipe D w = Some k" "ws_addr C h w = Some d" "dws_cells w d = Some D"
    and pv: "purged C h w = w\<lparr>pipes := (pipes w)(k \<mapsto> q\<lparr>pbuf := []\<rparr>)\<rparr>"
    by (rule waitableE)
  let ?f = "deleteMe_update (\<lambda>_. True)" and ?e = "q\<lparr>pbuf := []\<rparr>"
  let ?q = "q\<lparr>pbuf := [OFC_HANDLE_NULL]\<rparr>"
  have cap: "0 < pcap q" using nb_pipe_pipe [OF l(5)] l(3) by auto
  have u: "ws_pipe C h (purged C h w) = Some k" "pipes (purged C h w) k = Some ?e"
    using ws_pipe_update [OF l(2), of ?e] cap by (simp_all add: pv)
  have at: "th_at C t (purged C h w) = Some T" using assms(4) by (simp add: th_at_def pv)
  have sig: "ofc_waitset_signal_impl C h OFC_HANDLE_NULL (purged C h w) =
      Some (w\<lparr>pipes := (pipes w)(k \<mapsto> ?q)\<rparr>)"
    using cap by (simp add: signal_eq [OF l(1) u]) (simp add: pv)
  have pipe: "ws_pipe C (th_wait_set T) (purged C h w) = Some k" using u(1) assms(5) by simp
  obtain b where "v = th_update C t ?f (refilled k ?e b (purged C h w))"
    "ofc_waitset_signal_impl C h OFC_HANDLE_NULL (purged C h w) = Some (refilled k ?e b (purged C h w))"
    using delete_refills [OF l(1) at pipe u(2) assms(6)] assms(5) by metis
  then have v: "v = th_update C t ?f (w\<lparr>pipes := (pipes w)(k \<mapsto> ?q)\<rparr>)" by (simp add: sig)
  obtain a where a: "deref C t (core w) = Some a" "th_cells w a = Some T"
    using assms(4) by (rule th_atE)
  let ?w' = "v\<lparr>pipes := (pipes v)(k \<mapsto> ?e)\<rparr>"
  have "poll_outcome (awaited_all C h w) (\<lambda>h. ev_signalled C h v) (pbuf ?q) = (OFC_HANDLE_NULL, None, [])"
    by simp
  moreover have "nb_pipe D v = Some k" using l(5) cap by (auto simp: v frame nb_pipe_Some)
  moreover have "\<forall>e \<in> set (awaited_all C h w). ev_usable C (hEvent e) v"
    using assms(3) by (simp add: v ev_usable_def ev_at_def frame)
  ultimately have "ofc_waitset_wait_impl C Q (event_impl C) poll h w = Some (OFC_HANDLE_NULL, ?w')"
    using wait_notified [OF assms(1,2,7-9) l(6), of D k ?q] l(7) by (simp add: v frame Let_def)
  moreover have "pending C h ?w' = []"
  proof -
    have "ws_pipe C h ?w' = Some k"
      using l(4,5) cap by (auto simp: ws_pipe_def ws_impl_def v frame nb_pipe_Some)
    then show ?thesis by (simp add: pending_def pipe_items_def)
  qed
  moreover have "th_at C t ?w' = Some (?f T)"
    using a by (simp add: th_at_def v th_update_cells)
  then have "ofc_thread_is_deleting_impl C t ?w' = Some (True, ?w')"
    by (simp add: is_deleting_eq [OF l(1)])
  ultimately show ?thesis by blast
qed

theorem stop_request_seen_witness:
  "\<exists>w'. ofc_waitset_wait_impl demo_api demo_fifo (event_impl demo_api)
      (demo_poll (ofc_thread_delete_impl demo_api (direct demo_api) (Handle 20))) (Handle 7) demo_deletable =
      Some (OFC_HANDLE_NULL, w') \<and> ofc_thread_is_deleting_impl demo_api (Handle 20) w' = Some (True, w')"
proof -
  let ?d = "ofc_thread_delete_impl demo_api (direct demo_api) (Handle 20)"
  have at: "th_at demo_api (Handle 20) (purged demo_api (Handle 7) demo_deletable) =
      th_at demo_api (Handle 20) demo_deletable"
    by (rule th_at_cells) (simp_all add: purged_def split: option.split)
  have "ws_pipe demo_api (Handle 7) (purged demo_api (Handle 7) demo_deletable) = Some 0"
    using ws_pipe_update [OF stop_world(1), of "\<lparr>pbuf = [], pcap = 8\<rparr>"]
    by (simp add: purged_def stop_world(1))
  then obtain v where v: "?d (purged demo_api (Handle 7) demo_deletable) = Some v"
    using ws_queue.notify_law [of demo_api "Handle 7" "purged demo_api (Handle 7) demo_deletable"
        OFC_HANDLE_NULL]
    by (auto simp: delete_eq [OF demo_handle_laws at [THEN trans, OF demo_deletable_thread]]
        ofc_waitset_wake_impl_def)
  from stop_request_seen [OF stop_waitable stop_none_ready _ demo_deletable_thread _ v,
      of "demo_poll ?d" 1] stop_awaited show ?thesis
    by (force simp: poll_answers_def demo_poll_def v POLLIN_def)
qed

text \<open>
  C38: A request to stop that comes before the wait has no effect on it. The request sets the flag
  and leaves a notification, but the wait purges the pipe without looking at \<open>deleteMe\<close>: the pipe is
  empty again when \<open>poll\<close> is called, with the timeout it would have had anyway, and for every
  behaviour of \<open>poll\<close> the wait does exactly what it would have done had the flag been set without
  any notification. If nothing else happens it lasts until its timeout.
\<close>

theorem stop_request_missed:
  assumes "waitable C Q h w" and "th_at C t w = Some T" and "th_wait_set T = h"
    and "ofc_thread_delete_impl C (direct C) t w = Some w1"
  shows "ofc_thread_is_deleting_impl C t w1 = Some (True, w1) \<and> pending C h w1 \<noteq> [] \<and>
    pending C h (purged C h w1) = [] \<and>
    leastWait (scan_tables C Q h w1) = leastWait (scan_tables C Q h w) \<and>
    ofc_waitset_wait_impl C Q (event_impl C) poll h w1 =
      ofc_waitset_wait_impl C Q (event_impl C) poll h (th_update C t (deleteMe_update (\<lambda>_. True)) w)"
proof -
  from assms(1) obtain k q D d where l: "handle_laws C" "ws_pipe C h w = Some k" "pipes w k = Some q"
    "nb_pipe D w = Some k" "ws_impl C h w = Some D" "ws_addr C h w = Some d"
    by (rule waitableE)
  let ?f = "deleteMe_update (\<lambda>_. True)" and ?u = "th_update C t (deleteMe_update (\<lambda>_. True)) w"
  obtain b where b: "w1 = th_update C t ?f (refilled k q b w)"
    "ofc_waitset_signal_impl C h OFC_HANDLE_NULL w = Some (refilled k q b w)"
    using delete_refills [OF l(1) assms(2) _ l(3) assms(4)] l(2) assms(3) by blast
  obtain a where a: "deref C t (core w) = Some a" "th_cells w a = Some T"
    using assms(2) by (rule th_atE)
  let ?m = "(th_cells w)(a \<mapsto> ?f T)"
  have w1: "w1 = (refilled k q b w)\<lparr>th_cells := ?m\<rparr>"
    using a by (simp add: b(1) th_update_cells refilled_def)
  have q: "refilled k q (pbuf q) w = w" using l(3) by (simp add: refilled_def fun_upd_idem)
  have u: "?u = (refilled k q (pbuf q) w)\<lparr>th_cells := ?m\<rparr>"
    using a by (simp add: q th_update_cells)
  note f = wait_forgets [OF assms(1) l(2,3) w1] and g = wait_forgets [OF assms(1) l(2,3) u]
  have pg: "pending C h (purged C h w1) = []" by (rule pending_purged [OF f(1)])
  have pu: "ws_pipe C h ?u = Some k" "pipes ?u k = Some q"
    using l(2,3) by (simp_all add: frame ws_pipe_def ws_impl_def nb_pipe_def)
  have "w1 = (refilled k q b ?u)\<lparr>th_cells := th_cells ?u\<rparr>"
    using a by (simp add: w1 u refilled_def th_update_cells)
  from wait_forgets(3) [OF g(1) pu this refl]
  have "ofc_waitset_wait_impl C Q (event_impl C) poll h w1 =
      ofc_waitset_wait_impl C Q (event_impl C) poll h ?u" .
  moreover have "th_at C t w1 = Some (?f T)" using a by (simp add: th_at_def w1 refilled_def)
  then have "ofc_thread_is_deleting_impl C t w1 = Some (True, w1)"
    by (simp add: is_deleting_eq [OF l(1)])
  moreover have "pending C h w1 = pending C h (refilled k q b w)"
    by (simp add: w1 pending_def pipe_items_def ws_pipe_def ws_impl_def nb_pipe_def)
  moreover have "pending C h (refilled k q b w) \<noteq> []"
    by (rule ws_queue.notify_leaves_pending [OF _ b(2)]) (simp add: l)
  ultimately show ?thesis using pg f(5) by simp
qed

theorem stop_request_missed_witness:
  "\<exists>w1. ofc_thread_delete_impl demo_api (direct demo_api) (Handle 20) demo_deletable = Some w1 \<and>
     pending demo_api (Handle 7) w1 \<noteq> [] \<and>
     ofc_waitset_wait_impl demo_api demo_fifo (event_impl demo_api) (\<lambda>ps n v. Some (0, ps, v)) (Handle 7) w1 =
     ofc_waitset_wait_impl demo_api demo_fifo (event_impl demo_api) (\<lambda>ps n v. Some (0, ps, v)) (Handle 7)
       (th_update demo_api (Handle 20) (deleteMe_update (\<lambda>_. True)) demo_deletable)"
proof -
  obtain w1 where w1: "ofc_thread_delete_impl demo_api (direct demo_api) (Handle 20) demo_deletable = Some w1"
    using ws_queue.notify_law [of demo_api "Handle 7" demo_deletable OFC_HANDLE_NULL]
    by (auto simp: delete_eq [OF demo_handle_laws demo_deletable_thread] ofc_waitset_wake_impl_def
        stop_world(1))
  from stop_request_missed [OF stop_waitable demo_deletable_thread _ w1] w1 show ?thesis by simp
qed

end
