(* ===== verification/Event_Correct.thy ===== *)
theory Event_Correct
  imports Event_Darwin Demo_Sched
begin

text \<open>
  The abstract specification of events and the proof that the operations of
  \<open>src/event_darwin.c\<close> implement it when one thread at a time is inside them, for any number
  of events and any sequence of calls, also when the events belong to wait sets.
\<close>

section \<open>The specification\<close>

datatype ev_op = Op_set handle | Op_reset handle | Op_test handle | Op_wait handle

primrec op_target :: "ev_op \<Rightarrow> handle" where
  "op_target (Op_set h) = h"
| "op_target (Op_reset h) = h"
| "op_target (Op_test h) = h"
| "op_target (Op_wait h) = h"

type_synonym flags = "handle \<Rightarrow> (event_type \<times> bool) option"

text \<open>
  An event is its type and a flag. The result is what \<open>ofc_event_test_impl\<close> returns (true for
  the calls without a result); \<open>None\<close> is a wait that nobody ends.
\<close>

fun spec_op :: "ev_op \<Rightarrow> flags \<Rightarrow> (bool \<times> flags) option" where
  "spec_op (Op_set h) fl = Some (True, case fl h of None \<Rightarrow> fl | Some (k, _) \<Rightarrow> fl(h \<mapsto> (k, True)))"
| "spec_op (Op_reset h) fl = Some (True, case fl h of None \<Rightarrow> fl | Some (k, _) \<Rightarrow> fl(h \<mapsto> (k, False)))"
| "spec_op (Op_test h) fl = Some (case fl h of None \<Rightarrow> True | Some (_, b) \<Rightarrow> b, fl)"
| "spec_op (Op_wait h) fl =
     (case fl h of
        None \<Rightarrow> Some (True, fl)
      | Some (k, b) \<Rightarrow>
          if b then Some (True, if k = OFC_EVENT_AUTO then fl(h \<mapsto> (k, False)) else fl) else None)"

fun impl_op :: "'h core_api \<Rightarrow> ev_op \<Rightarrow> 'h world \<Rightarrow> (bool \<times> 'h world) option" where
  "impl_op C (Op_set h) w = map_option (Pair True) (ofc_event_set_impl C h w)"
| "impl_op C (Op_reset h) w = map_option (Pair True) (ofc_event_reset_impl C h w)"
| "impl_op C (Op_test h) w = ofc_event_test_impl C h w"
| "impl_op C (Op_wait h) w = map_option (Pair True) (ofc_event_wait_impl C (\<lambda>_. None) h w)"

fun run_ops :: "('o \<Rightarrow> 's \<Rightarrow> (bool \<times> 's) option) \<Rightarrow> 'o list \<Rightarrow> 's \<Rightarrow> (bool list \<times> 's) option" where
  "run_ops f [] s = Some ([], s)"
| "run_ops f (x # xs) s = do {
     (r, s) \<leftarrow> f x s;
     (rs, s) \<leftarrow> run_ops f xs s;
     Some (r # rs, s)
   }"

section \<open>The refinement\<close>

definition flags_of :: "'h core_api \<Rightarrow> 'h world \<Rightarrow> flags" where
  "flags_of C w = (\<lambda>h. map_option (\<lambda>e. (eventType e, signalled e)) (ev_at C h w))"

text \<open>
  The handles of \<open>E\<close> are dead or events with a free mutex, and the wait set an event belongs
  to, if any, is dead or has its pipe.
\<close>

definition quiet :: "'h core_api \<Rightarrow> handle set \<Rightarrow> 'h world \<Rightarrow> bool" where
  "quiet C E w \<longleftrightarrow> handle_laws C \<and> (\<forall>h \<in> E. ev_usable C h w) \<and>
     (\<forall>h \<in> E. deref C (ofc_handle_get_wait_set C h (core w)) (core w) = None \<or>
             ws_pipe C (ofc_handle_get_wait_set C h (core w)) w \<noteq> None)"

lemma nb_pipe_refill:
  assumes "pipes w k = Some p" and "pcap q = pcap p"
  shows "nb_pipe D (w\<lparr>pipes := (pipes w)(k \<mapsto> q)\<rparr>) = nb_pipe D w"
  using assms by (auto simp: nb_pipe_def split: Option.bind_splits)

lemma signal_keeps_pipes:
  assumes "handle_laws C" and "deref C h (core w) = None \<or> ws_pipe C h w \<noteq> None"
    and "ofc_waitset_signal_impl C h e w = Some w'"
  shows "ws_pipe C g w' = ws_pipe C g w"
proof (cases "ws_pipe C h w")
  case None
  with assms show ?thesis by (simp add: signal_invalid)
next
  case (Some k)
  then obtain p where "pipes w k = Some p" by (rule ws_pipe_implE)
  with Some assms(1,3) show ?thesis
    by (auto simp: signal_eq ws_pipe_def nb_pipe_refill [of w k p] split: if_splits)
qed

lemma ws_pipe_write [frame]: "ws_pipe C g (ev_write C h b w) = ws_pipe C g w"
  by (simp add: ws_pipe_def ws_impl_def nb_pipe_def frame)

lemma signal_returns:
  assumes "handle_laws C" and "deref C h (core w) = None \<or> ws_pipe C h w \<noteq> None"
  obtains w' where "ofc_waitset_signal_impl C h e w = Some w'"
proof (cases "ws_pipe C h w")
  case None
  with assms that show ?thesis by (auto simp: signal_invalid)
next
  case (Some k)
  with ws_queue.notify_law [of C h w e] assms(1) that show ?thesis by auto
qed

lemma quiet_cong:
  assumes "quiet C E w" and "core w' = core w" and "\<And>h. ev_usable C h w' = ev_usable C h w"
    and "\<And>g. ws_pipe C g w' = ws_pipe C g w"
  shows "quiet C E w'"
  using assms by (simp add: quiet_def)

lemma quiet_write: "quiet C E w \<Longrightarrow> quiet C E (ev_write C h b w)"
  by (erule quiet_cong) (simp_all add: frame ev_usable_write)

lemma flags_of_at: "flags_of C w h = map_option (\<lambda>e. (eventType e, signalled e)) (ev_at C h w)"
  by (simp add: flags_of_def)

lemma flags_of_write:
  assumes "handle_laws C"
  shows "flags_of C (ev_write C h b w) =
    (case flags_of C w h of None \<Rightarrow> flags_of C w | Some (k, _) \<Rightarrow> (flags_of C w)(h \<mapsto> (k, b)))"
  using assms
  by (auto simp: flags_of_def ev_at_write fun_eq_iff split: option.split)

lemma event_wait_eq:
  assumes "ev_usable C h w"
  shows "ofc_event_wait_impl C (\<lambda>_. None) h w =
    (case ev_at C h w of None \<Rightarrow> Some w
     | Some e \<Rightarrow> if signalled e then Some (if eventType e = OFC_EVENT_AUTO then ev_write C h False w else w)
                 else None)"
  using assms
proof (cases rule: ev_usable_cases)
  case dead
  then show ?thesis by (simp add: ofc_event_wait_impl_def lock_h_None ev_at_def)
next
  case (live a e)
  then show ?thesis
    by (simp add: ofc_event_wait_impl_def op_defs unlock_after_lock ev_at_def ev_write_def
        pthread_cond_wait_def fun_upd_idem)
qed

text \<open>One call.\<close>

lemma impl_op_refines:
  assumes "quiet C E w" and "op_target x \<in> E"
  shows "case spec_op x (flags_of C w) of
      None \<Rightarrow> impl_op C x w = None
    | Some (r, fl) \<Rightarrow> (\<exists>w'. impl_op C x w = Some (r, w') \<and> flags_of C w' = fl \<and> quiet C E w')"
proof -
  have laws: "handle_laws C" and u: "ev_usable C (op_target x) w"
    using assms by (auto simp: quiet_def)
  show ?thesis
  proof (cases x)
    case (Op_set h)
    let ?ws = "ofc_handle_get_wait_set C h (core w)"
    have ok: "deref C ?ws (core w) = None \<or> ws_pipe C ?ws w \<noteq> None"
      using assms Op_set by (auto simp: quiet_def)
    obtain v where v: "ofc_waitset_signal_impl C ?ws h w = Some v" using signal_returns [OF laws ok] .
    note fr = signal_frame [OF laws v]
    have ev: "ev_at C g v = ev_at C g w" for g using fr by (simp add: ev_at_def)
    have qv: "quiet C E v"
      using assms(1) fr by (rule_tac quiet_cong)
        (simp_all add: ev_usable_def ev signal_keeps_pipes [OF laws ok v])
    have fv: "flags_of C v = flags_of C w" by (simp add: flags_of_def ev)
    have dead: "deref C h (core w) = None \<Longrightarrow> flags_of C w h = None" by (simp add: flags_of_def ev_at_def)
    show ?thesis
      using u Op_set v qv assms(1) laws dead
      by (auto simp: event_set_eq Let_def quiet_write flags_of_write fv split: option.split)
  next
    case (Op_reset h)
    then show ?thesis
      using u assms(1) laws by (simp add: event_reset_eq quiet_write flags_of_write)
  next
    case (Op_test h)
    then show ?thesis
      using u assms(1) by (simp add: event_test_eq ev_signalled_def flags_of_def split: option.split)
  next
    case (Op_wait h)
    then show ?thesis
      using u assms(1) laws
      by (cases "ev_at C h w") (simp_all add: event_wait_eq flags_of_write quiet_write flags_of_at)
  qed
qed

text \<open>
  C1: Any sequence of set, reset, test and wait calls on any events behaves as on abstract flags: the
  same results, the same flags afterwards, and a wait that does not return exactly when the
  event is not raised. Dead handles are ignored by all four, and a test of one answers true.
\<close>

theorem events_refine_flags:
  assumes "quiet C E w" and "\<forall>x \<in> set xs. op_target x \<in> E"
  shows "case run_ops spec_op xs (flags_of C w) of
      None \<Rightarrow> run_ops (impl_op C) xs w = None
    | Some (rs, fl) \<Rightarrow> (\<exists>w'. run_ops (impl_op C) xs w = Some (rs, w') \<and> flags_of C w' = fl)"
  using assms
proof (induction xs arbitrary: w)
  case (Cons x xs)
  have t: "op_target x \<in> E" and ts: "\<forall>x \<in> set xs. op_target x \<in> E" using Cons.prems(2) by simp_all
  show ?case
  proof (cases "spec_op x (flags_of C w)")
    case None
    then show ?thesis using impl_op_refines [OF Cons.prems(1) t] by simp
  next
    case (Some y)
    obtain r fl where y: "y = (r, fl)" by (cases y)
    then obtain w1 where w1: "impl_op C x w = Some (r, w1)" "flags_of C w1 = fl" "quiet C E w1"
      using impl_op_refines [OF Cons.prems(1) t] Some by auto
    then show ?thesis
      using Cons.IH [OF w1(3) ts] Some y by (auto split: option.splits)
  qed
qed simp

lemma demo_quiet: "quiet demo_api {Handle 5, Handle 20} (demo_sched False [])"
  by (auto simp: quiet_def ev_usable_def ev_at_def ws_pipe_def sched_impl nb_pipe_def)

theorem events_refine_flags_witness:
  "\<exists>w'. run_ops (impl_op demo_api)
      [Op_set (Handle 5), Op_wait (Handle 5), Op_test (Handle 5), Op_test (Handle 20)] (demo_sched False []) =
      Some ([True, True, False, True], w')"
proof -
  let ?xs = "[Op_set (Handle 5), Op_wait (Handle 5), Op_test (Handle 5), Op_test (Handle 20)]"
  have spec: "\<exists>fl. run_ops spec_op ?xs (flags_of demo_api (demo_sched False [])) =
      Some ([True, True, False, True], fl)" by (simp add: flags_of_at ev_at_def)
  have "\<forall>x \<in> set ?xs. op_target x \<in> {Handle 5, Handle 20}" by simp
  from events_refine_flags [OF demo_quiet this] spec show ?thesis
    by (auto simp del: run_ops.simps)
qed

text \<open>
  C34: The life of an event: \<open>ofc_event_create_impl\<close> on fresh memory gives a new live handle of the
  given type, not raised, in no wait set; \<open>ofc_event_destroy_impl\<close> frees the cell and makes the
  handle dead, after which set, reset and wait do nothing and test answers true.
\<close>

theorem event_lifecycle:
  assumes "handle_laws C" and "lifecycle_laws C" and "\<forall>g. deref C g (core w) \<noteq> Some a"
  shows "\<exists>h w1 w2. ofc_event_create_impl C k (Some a) w = (h, w1) \<and> h \<noteq> OFC_HANDLE_NULL \<and>
    flags_of C w1 h = Some (k, False) \<and> (\<forall>g. g \<noteq> h \<longrightarrow> flags_of C w1 g = flags_of C w g) \<and>
    ofc_event_destroy_impl C h w1 = Some w2 \<and> ev_cells w2 a = None \<and> deref C h (core w2) = None \<and>
    ofc_event_set_impl C h w2 = Some w2 \<and> ofc_event_reset_impl C h w2 = Some w2 \<and>
    ofc_event_wait_impl C (\<lambda>_. None) h w2 = Some w2 \<and> ofc_event_test_impl C h w2 = Some (True, w2)"
proof -
  obtain h s where h: "ofc_handle_create C OFC_HANDLE_EVENT a (core w) = (h, s)" by fastforce
  let ?c = "\<lparr>eventType = k, signalled = False, mutex_held = False\<rparr>"
  let ?w1 = "w\<lparr>ev_cells := (ev_cells w)(a \<mapsto> ?c), core := s\<rparr>"
  have create: "ofc_event_create_impl C k (Some a) w = (h, ?w1)"
    using h by (simp add: ofc_event_create_impl_def Let_def)
  note l = lifecycle_lawsD(1) [OF assms(2) h assms(3)]
  then have live: "deref C h s = Some a" by blast
  have others: "flags_of C ?w1 g = flags_of C w g" if "g \<noteq> h" for g
    using l that assms(3) by (cases "deref C g (core w)") (auto simp: flags_of_at ev_at_def)
  let ?s2 = "ofc_handle_unlock C h (ofc_handle_destroy C h (snd (ofc_handle_lock C h s)))"
  let ?w2 = "w\<lparr>ev_cells := (ev_cells w)(a := None), core := ?s2\<rparr>"
  have destroy: "ofc_event_destroy_impl C h ?w1 = Some ?w2"
    using live by (simp add: ofc_event_destroy_impl_def lock_h_eq unlock_h_def destroy_h_def)
  have dead: "deref C h (core ?w2) = None" using lifecycle_lawsD(2) [OF assms(2), of h s h] live by simp
  then have u: "ev_usable C h ?w2" "ev_at C h ?w2 = None"
    using assms(1) by (simp_all add: ev_usable_def ev_at_def)
  show ?thesis
    using create l live others destroy dead event_set_eq [OF u(1)] event_reset_eq [OF u(1)]
      event_wait_eq [OF u(1)] event_test_eq [OF u(1)] u(2)
    by (intro exI [of _ h] exI [of _ ?w1] exI [of _ ?w2])
      (simp add: flags_of_at ev_at_def ev_write_def ev_signalled_def)
qed

theorem event_lifecycle_witness:
  "\<exists>h w1 w2. ofc_event_create_impl demo_api OFC_EVENT_AUTO (Some 30) (demo_world demo_empty) = (h, w1) \<and>
     ofc_event_destroy_impl demo_api h w1 = Some w2 \<and> ofc_event_test_impl demo_api h w2 = Some (True, w2)"
proof -
  have "\<forall>g. deref demo_api g (core (demo_world demo_empty)) \<noteq> Some 30" by (simp add: demo_deref_iff)
  from event_lifecycle [OF demo_handle_laws demo_lifecycle_laws this, of OFC_EVENT_AUTO]
  show ?thesis by blast
qed

end
