(* ===== verification/Waitset_Life.thy ===== *)
theory Waitset_Life
  imports Event_Correct
begin

text \<open>
  The life of a wait set (\<open>src/waitset_darwin.c\<close>): creating its pipe and closing it, adding an
  event to it, and the listing of its members.
\<close>

section \<open>Creating and destroying\<close>

text \<open>The answer of \<open>pipe\<close>: two descriptors that were not open, a pipe of some capacity.\<close>

definition fresh_pipe :: "pipe_answer \<Rightarrow> 'h world \<Rightarrow> bool" where
  "fresh_pipe a w \<longleftrightarrow> pa_rd a \<noteq> pa_wr a \<and> fds w (pa_rd a) = None \<and> fds w (pa_wr a) = None \<and>
     0 < pa_cap a"

definition created :: "addr \<Rightarrow> WAIT_SET \<Rightarrow> addr \<Rightarrow> pipe_answer \<Rightarrow> 'h world \<Rightarrow> 'h world" where
  "created p ws d a w =
     w\<lparr>ws_cells := (ws_cells w)(p \<mapsto> ws\<lparr>impl := Some d\<rparr>),
       dws_cells := (dws_cells w)(d \<mapsto> \<lparr>pipe_rd = pa_rd a, pipe_wr = pa_wr a\<rparr>),
       fds := (fds w)
         (pa_rd a \<mapsto> \<lparr>fd_end = Read_End, fd_pipe = pa_pipe a, o_nonblock = True\<rparr>,
          pa_wr a \<mapsto> \<lparr>fd_end = Write_End, fd_pipe = pa_pipe a, o_nonblock = True\<rparr>),
       pipes := (pipes w)(pa_pipe a \<mapsto> \<lparr>pbuf = [], pcap = pa_cap a\<rparr>)\<rparr>"

lemma waitset_create_eq:
  assumes "ws_cells w p = Some ws" and "fresh_pipe a w"
  shows "ofc_waitset_create_impl p (Some d) (Some a) g w = Some (created p ws d a w)"
  using assms
  by (simp add: ofc_waitset_create_impl_def sys_pipe_def set_nonblock_def created_def fresh_pipe_def
      fun_upd_twist)

lemma created_pipe:
  assumes "deref C h (core w) = Some p" and "fresh_pipe a w"
  shows "ws_pipe C h (created p ws d a w) = Some (pa_pipe a)"
  using assms by (simp add: ws_pipe_def ws_impl_def nb_pipe_def created_def fresh_pipe_def)

text \<open>
  C33: \<open>ofc_waitset_create_impl\<close> makes the \<open>WAIT_SET\<close> a working queue: its pipe is there, empty, with both
  ends non-blocking, and a first notification is pending afterwards.
  \<open>ofc_waitset_destroy_impl\<close> closes both descriptors, frees the cell and clears \<open>impl\<close>.
\<close>

theorem waitset_lifecycle:
  assumes "handle_laws C" and "deref C h (core w) = Some p" and "ws_cells w p = Some ws"
    and "fresh_pipe a w"
  shows "\<exists>w1. ofc_waitset_create_impl p (Some d) (Some a) g w = Some w1 \<and>
    ws_pipe C h w1 \<noteq> None \<and> pending C h w1 = [] \<and>
    (\<exists>w2. ofc_waitset_signal_impl C h e w1 = Some w2 \<and> pending C h w2 = [e]) \<and>
    (\<exists>w3. ofc_waitset_destroy_impl p w1 = Some w3 \<and> fds w3 = fds w \<and> dws_cells w3 d = None \<and>
       ws_cells w3 p = Some (ws\<lparr>impl := None\<rparr>))"
proof -
  let ?w1 = "created p ws d a w"
  note k = created_pipe [OF assms(2,4), of ws d]
  have ok: "handle_laws C \<and> ws_pipe C h ?w1 \<noteq> None" using assms(1) k by simp
  have empty: "pending C h ?w1 = []" using k by (simp add: pending_def pipe_items_def) (simp add: created_def)
  obtain w2 where "ofc_waitset_signal_impl C h e ?w1 = Some w2" "pending C h w2 = [e]"
    using ws_queue.notify_onto_empty [OF ok empty] by blast
  moreover have "\<exists>w3. ofc_waitset_destroy_impl p ?w1 = Some w3 \<and> fds w3 = fds w \<and> dws_cells w3 d = None \<and>
       ws_cells w3 p = Some (ws\<lparr>impl := None\<rparr>)"
    using assms(4) by (auto simp: ofc_waitset_destroy_impl_def created_def close_fd_def fresh_pipe_def fun_eq_iff)
  ultimately show ?thesis
    using waitset_create_eq [OF assms(3,4)] ok empty by blast
qed

definition demo_bare :: "demo world" where
  "demo_bare = (demo_sched False [])\<lparr>ws_cells := [7 \<mapsto> \<lparr>impl = None, hHandleQueue = Handle 9\<rparr>],
     dws_cells := Map.empty, fds := Map.empty, pipes := Map.empty\<rparr>"

theorem waitset_lifecycle_witness:
  "\<exists>w1. ofc_waitset_create_impl 7 (Some 2) (Some \<lparr>pa_rd = 3, pa_wr = 4, pa_pipe = 0, pa_cap = 8\<rparr>)
      \<lparr>pipe_rd = 0, pipe_wr = 0\<rparr> demo_bare = Some w1 \<and> pending demo_api (Handle 7) w1 = []"
proof -
  have "deref demo_api (Handle 7) (core demo_bare) = Some 7"
    "ws_cells demo_bare 7 = Some \<lparr>impl = None, hHandleQueue = Handle 9\<rparr>"
    "fresh_pipe \<lparr>pa_rd = 3, pa_wr = 4, pa_pipe = 0, pa_cap = 8\<rparr> demo_bare"
    by (simp_all add: demo_bare_def fresh_pipe_def)
  from waitset_lifecycle [OF demo_handle_laws this, of 2 "\<lparr>pipe_rd = 0, pipe_wr = 0\<rparr>"]
  show ?thesis by blast
qed

section \<open>Adding an event\<close>

lemma set_app_views:
  assumes "handle_laws C"
  shows "ev_at C g (set_app C h b ws w) = ev_at C g w"
    and "ws_pipe C g (set_app C h b ws w) = ws_pipe C g w"
    and "ev_usable C g (set_app C h b ws w) = ev_usable C g w"
    and "pending C g (set_app C h b ws w) = pending C g w"
proof -
  have d: "deref C g (ofc_handle_set_app C h b ws (core w)) = deref C g (core w)" for g
    by (rule core_reads_eqD(1) [OF handle_lawsD(8) [OF assms]])
  show ev: "ev_at C g (set_app C h b ws w) = ev_at C g w" by (simp add: ev_at_def set_app_def d)
  show "ev_usable C g (set_app C h b ws w) = ev_usable C g w"
    by (simp add: ev_usable_def ev) (simp add: set_app_def d)
  show p: "ws_pipe C g (set_app C h b ws w) = ws_pipe C g w"
    by (simp add: ws_pipe_def ws_impl_def nb_pipe_def set_app_def d)
  show "pending C g (set_app C h b ws w) = pending C g w"
    by (simp add: pending_def p pipe_items_def) (simp add: set_app_def)
qed

lemma signal_views:
  assumes "handle_laws C" and "ofc_waitset_signal_impl C h e w = Some w'"
  shows "ev_at C g w' = ev_at C g w" and "ev_usable C g w' = ev_usable C g w"
  using signal_frame [OF assms] by (simp_all add: ev_at_def ev_usable_def)

text \<open>
  C35: Adding an event to a wait set loses no signal, whichever comes first: an event already
  raised leaves a notification pending, an event raised later notifies the set it was added to.
\<close>

theorem add_event_notifies:
  assumes "handle_laws C" and "ws_pipe C ws w \<noteq> None"
    and "ofc_handle_get_type C ev (core w) = OFC_HANDLE_EVENT"
    and "ev_at C ev w = Some e" and "\<not> mutex_held e"
  shows "\<exists>w1 w2. ofc_waitset_add_impl C (event_impl C) ws app ev w = Some w1 \<and>
    ofc_handle_get_wait_set C ev (core w1) = ws \<and>
    (signalled e \<longrightarrow> pending C ws w1 \<noteq> []) \<and> (\<not> signalled e \<longrightarrow> pending C ws w1 = pending C ws w) \<and>
    ofc_event_set_impl C ev w1 = Some w2 \<and> pending C ws w2 \<noteq> [] \<and> ev_signalled C ev w2"
proof -
  let ?v = "set_app C ev app ws w"
  note views = set_app_views [OF assms(1)]
  have live: "deref C ev (core w) \<noteq> None" using assms(4) by (cases "deref C ev (core w)") (simp_all add: ev_at_def)
  have u: "ev_usable C ev ?v" using assms(1,4,5) by (simp add: views) (simp add: ev_usable_def)
  have sg: "ev_signalled C ev ?v = signalled e" by (simp add: ev_signalled_def views assms(4))
  have wsn: "ofc_handle_get_wait_set C ev (core ?v) = ws"
    using handle_lawsD(9) [OF assms(1) live] by (simp add: set_app_def)
  have okv: "handle_laws C \<and> ws_pipe C ws ?v \<noteq> None" using assms(1,2) by (simp add: views)
  have add: "ofc_waitset_add_impl C (event_impl C) ws app ev w =
      (if signalled e then ofc_waitset_signal_impl C ws ev ?v else Some ?v)"
    using assms(3) by (simp add: ofc_waitset_add_impl_def signal_if_set_def event_test_eq [OF u] sg)
  have "\<exists>w1. ofc_waitset_add_impl C (event_impl C) ws app ev w = Some w1 \<and> core w1 = core ?v \<and>
      (signalled e \<longrightarrow> pending C ws w1 \<noteq> []) \<and> (\<not> signalled e \<longrightarrow> pending C ws w1 = pending C ws w) \<and>
      ev_at C ev w1 = Some e \<and> ws_pipe C ws w1 \<noteq> None"
  proof (cases "signalled e")
    case True
    obtain w1 where w1: "ofc_waitset_signal_impl C ws ev ?v = Some w1"
        "ws_pipe C ws w1 \<noteq> None" using ws_queue.notify_law [OF okv, of ev] by auto
    then show ?thesis
      using True add ws_queue.notify_leaves_pending [OF okv w1(1)] signal_frame [OF assms(1) w1(1)]
        signal_views(1) [OF assms(1) w1(1), of ev] by (auto simp: views assms(4))
  next
    case False
    then show ?thesis using add assms(2,4) by (simp add: views)
  qed
  then obtain w1 where w1: "ofc_waitset_add_impl C (event_impl C) ws app ev w = Some w1"
      "core w1 = core ?v" "signalled e \<longrightarrow> pending C ws w1 \<noteq> []"
      "\<not> signalled e \<longrightarrow> pending C ws w1 = pending C ws w" "ev_at C ev w1 = Some e"
      "ws_pipe C ws w1 \<noteq> None" by blast
  have u1: "ev_usable C ev w1" using assms(1,5) w1(5) by (simp add: ev_usable_def)
  have live1: "deref C ev (core w1) \<noteq> None" using w1(5) by (cases "deref C ev (core w1)") (simp_all add: ev_at_def)
  have ok1: "handle_laws C \<and> ws_pipe C ws w1 \<noteq> None" using assms(1) w1(6) by simp
  have nn: "ws \<noteq> OFC_HANDLE_NULL" using w1(6) ws_pipe_live handle_lawsD(6) [OF assms(1)] by force
  obtain x where x: "ofc_waitset_signal_impl C ws ev w1 = Some x"
    using ws_queue.notify_law [OF ok1, of ev] by auto
  have set: "ofc_event_set_impl C ev w1 = Some (ev_write C ev True x)"
    using live1 nn x wsn w1(2) by (auto simp: event_set_eq [OF u1] Let_def)
  have "pending C ws (ev_write C ev True x) = pending C ws x"
    by (simp add: pending_def pipe_items_def ws_pipe_write frame)
  moreover have "ev_signalled C ev (ev_write C ev True x)"
    using signal_views(1) [OF assms(1) x, of ev] w1(5) assms(1) by (simp add: ev_signalled_write)
  ultimately show ?thesis
    using w1 set wsn ws_queue.notify_leaves_pending [OF ok1 x] by auto
qed

theorem add_event_notifies_witness:
  "\<exists>w1. ofc_waitset_add_impl demo_api (event_impl demo_api) (Handle 7) (Handle 12) (Handle 5)
      (demo_sched True []) = Some w1 \<and> pending demo_api (Handle 7) w1 \<noteq> []"
proof -
  have p: "ws_pipe demo_api (Handle 7) (demo_sched True []) \<noteq> None" by (simp add: sched_pipe)
  have t: "ofc_handle_get_type demo_api (Handle 5) (core (demo_sched True [])) = OFC_HANDLE_EVENT" by simp
  from add_event_notifies [OF demo_handle_laws p t sched_ev] show ?thesis by auto
qed

section \<open>The listing\<close>

text \<open>
  For a CIFS overlapped handle \<open>ofc_waitset_debug\<close> prints the opposite of what the scheduler
  does: "triggered" exactly when the scan of \<open>ofc_waitset_wait_impl\<close> does not take the handle.
\<close>

theorem debug_overlapped_inverted:
  assumes "ofc_handle_get_type C h (core w) = OFC_HANDLE_FSSMB_OVERLAPPED"
  shows "debug_handle C E h w = Some ([Dbg_cifs_overlapped ''triggered''], w) \<longleftrightarrow> \<not> handle_ready C w h"
  using assms by (simp add: debug_handle_def handle_ready_def Let_def)

theorem debug_overlapped_inverted_witness:
  "debug_handle demo_api (event_impl demo_api) (Handle 5)
     (demo_world (demo_empty\<lparr>d_live := [5 \<mapsto> OFC_HANDLE_FSSMB_OVERLAPPED]\<rparr>)) =
   Some ([Dbg_cifs_overlapped ''triggered''],
     demo_world (demo_empty\<lparr>d_live := [5 \<mapsto> OFC_HANDLE_FSSMB_OVERLAPPED]\<rparr>))"
  using debug_overlapped_inverted [of demo_api "Handle 5"
      "demo_world (demo_empty\<lparr>d_live := [5 \<mapsto> OFC_HANDLE_FSSMB_OVERLAPPED]\<rparr>)" "event_impl demo_api"]
  by (simp add: handle_ready_def)

end
