(* ===== verification/Waitset_Threads.thy ===== *)
theory Waitset_Threads
  imports Waitset_Correct Event_Correct
begin

text \<open>
  The scheduler's wait against other threads (\<open>src/waitset_darwin.c\<close>): the wait of
  \<open>Waitset_Darwin\<close> on a set of events, cut into the steps between which another thread can raise
  an event, write its notification to the pipe, lower an event or send a wake-up.

  The code raises and notifies under the event's mutex; the steps here let the scheduler and
  the other threads run between the two as well, so what holds for them holds for the code. That
  the steps are the code's is proved at the end, for the scheduler and for the other threads.
\<close>

section \<open>The system\<close>

text \<open>Where the scheduler is; \<open>Sched_scan ls hs\<close>: it has looked at \<open>ls\<close>, \<open>hs\<close> is still to come.\<close>

datatype sched_pc =
    Sched_out
  | Sched_purge
  | Sched_scan "handle list" "handle list"
  | Sched_take handle
  | Sched_poll
  | Sched_read
  | Sched_test handle
  | Sched_consume handle
  | Sched_done handle

text \<open>\<open>ss_set t = Some e\<close>: thread \<open>t\<close> has raised \<open>e\<close> and its notification is still to be written.\<close>

record sched_sys =
  ss_kind :: "handle \<Rightarrow> event_type"
  ss_flag :: "handle \<Rightarrow> bool"
  ss_pipe :: "handle list"
  ss_cap :: nat
  ss_pc :: sched_pc
  ss_set :: "nat \<Rightarrow> handle option"

definition at_pc :: "sched_pc \<Rightarrow> sched_sys \<Rightarrow> sched_sys" where
  "at_pc p s = s\<lparr>ss_pc := p\<rparr>"

definition lower_auto :: "handle \<Rightarrow> sched_sys \<Rightarrow> sched_sys" where
  "lower_auto h s = (if ss_kind s h = OFC_EVENT_AUTO then s\<lparr>ss_flag := (ss_flag s)(h := False)\<rparr> else s)"

definition notify_pipe :: "handle \<Rightarrow> sched_sys \<Rightarrow> sched_sys" where
  "notify_pipe h s = (if length (ss_pipe s) < ss_cap s then s\<lparr>ss_pipe := ss_pipe s @ [h]\<rparr> else s)"

text \<open>The scheduler's next step on the members \<open>ms\<close>; \<open>None\<close> when it cannot move.\<close>

definition sched_next :: "handle list \<Rightarrow> sched_sys \<Rightarrow> sched_sys option" where
  "sched_next ms s =
     (case ss_pc s of
        Sched_out \<Rightarrow> None
      | Sched_purge \<Rightarrow>
          Some (case ss_pipe s of [] \<Rightarrow> at_pc (Sched_scan [] ms) s | x # xs \<Rightarrow> s\<lparr>ss_pipe := xs\<rparr>)
      | Sched_scan ls [] \<Rightarrow> Some (at_pc Sched_poll s)
      | Sched_scan ls (h # hs) \<Rightarrow>
          Some (if ss_flag s h then at_pc (Sched_take h) s else at_pc (Sched_scan (ls @ [h]) hs) s)
      | Sched_take h \<Rightarrow> Some (at_pc (Sched_done h) (lower_auto h s))
      | Sched_poll \<Rightarrow> if ss_pipe s = [] then None else Some (at_pc Sched_read s)
      | Sched_read \<Rightarrow>
          Some (case ss_pipe s of
                  [] \<Rightarrow> at_pc (Sched_done OFC_HANDLE_NULL) s
                | x # xs \<Rightarrow>
                    at_pc (if x = OFC_HANDLE_NULL then Sched_done OFC_HANDLE_NULL
                           else if x \<in> set ms then Sched_test x else Sched_read) (s\<lparr>ss_pipe := xs\<rparr>))
      | Sched_test h \<Rightarrow> Some (at_pc (if ss_flag s h then Sched_consume h else Sched_read) s)
      | Sched_consume h \<Rightarrow> Some (at_pc (Sched_done h) (lower_auto h s))
      | Sched_done h \<Rightarrow> Some (at_pc Sched_out s))"

text \<open>What the scheduler and the threads that have raised an event can do by themselves.\<close>

inductive sched_own :: "handle list \<Rightarrow> sched_sys \<Rightarrow> sched_sys \<Rightarrow> bool" for ms where
  sched: "sched_next ms s = Some s' \<Longrightarrow> sched_own ms s s'"
| call: "ss_pc s = Sched_out \<Longrightarrow> sched_own ms s (at_pc Sched_purge s)"
| notify: "ss_set s t = Some e \<Longrightarrow> sched_own ms s (notify_pipe e (s\<lparr>ss_set := (ss_set s)(t := None)\<rparr>))"

text \<open>All steps: also time-outs of \<open>poll\<close>, new events, events lowered, and wake-ups.\<close>

inductive sched_step :: "handle list \<Rightarrow> sched_sys \<Rightarrow> sched_sys \<Rightarrow> bool" for ms where
  own: "sched_own ms s s' \<Longrightarrow> sched_step ms s s'"
| timeout: "ss_pc s = Sched_poll \<Longrightarrow> sched_step ms s (at_pc (Sched_done OFC_HANDLE_NULL) s)"
| raise: "ss_set s t = None \<Longrightarrow>
     sched_step ms s (s\<lparr>ss_flag := (ss_flag s)(e := True), ss_set := (ss_set s)(t \<mapsto> e)\<rparr>)"
| lower: "sched_step ms s (s\<lparr>ss_flag := (ss_flag s)(e := False)\<rparr>)"
| wake: "sched_step ms s (notify_pipe OFC_HANDLE_NULL s)"

definition sched_start :: "(handle \<Rightarrow> event_type) \<Rightarrow> nat \<Rightarrow> sched_sys" where
  "sched_start k n = \<lparr>ss_kind = k, ss_flag = (\<lambda>_. False), ss_pipe = [], ss_cap = n,
     ss_pc = Sched_out, ss_set = (\<lambda>_. None)\<rparr>"

inductive sched_reach :: "handle list \<Rightarrow> sched_sys \<Rightarrow> bool" for ms where
  start: "0 < n \<Longrightarrow> sched_reach ms (sched_start k n)"
| step: "sched_reach ms s \<Longrightarrow> sched_step ms s s' \<Longrightarrow> sched_reach ms s'"

section \<open>The invariant\<close>

text \<open>The members the scheduler relies on not to be raised silently.\<close>

fun looked :: "handle list \<Rightarrow> sched_pc \<Rightarrow> handle set" where
  "looked ms (Sched_scan ls hs) = set ls"
| "looked ms Sched_poll = set ms"
| "looked ms _ = {}"

text \<open>A member that is raised after it was looked at has left, or is about to leave, a notification.\<close>

definition announced :: "sched_sys \<Rightarrow> handle \<Rightarrow> bool" where
  "announced s h \<longleftrightarrow> ss_pipe s \<noteq> [] \<or> (\<exists>t. ss_set s t = Some h)"

fun pc_ok :: "handle list \<Rightarrow> sched_pc \<Rightarrow> bool" where
  "pc_ok ms (Sched_scan ls hs) = (ls @ hs = ms)"
| "pc_ok ms (Sched_take h) = (h \<in> set ms)"
| "pc_ok ms (Sched_test h) = (h \<in> set ms)"
| "pc_ok ms (Sched_consume h) = (h \<in> set ms)"
| "pc_ok ms _ = True"

definition sched_inv :: "handle list \<Rightarrow> sched_sys \<Rightarrow> bool" where
  "sched_inv ms s \<longleftrightarrow> 0 < ss_cap s \<and> pc_ok ms (ss_pc s) \<and>
     (\<forall>h \<in> looked ms (ss_pc s). ss_flag s h \<longrightarrow> announced s h)"

lemmas sched_moves = at_pc_def lower_auto_def notify_pipe_def

lemma inv_next:
  assumes "sched_inv ms s" and "sched_next ms s = Some s'"
  shows "sched_inv ms s'"
proof (cases "ss_pc s")
  case (Sched_scan ls hs)
  then show ?thesis
    using assms by (cases hs) (auto simp: sched_next_def sched_inv_def sched_moves announced_def
        split: if_splits)
qed (use assms in \<open>auto simp: sched_next_def sched_inv_def sched_moves announced_def
      split: if_splits list.splits\<close>)

lemma inv_own:
  assumes "sched_own ms s s'" and "sched_inv ms s"
  shows "sched_inv ms s'"
  using assms(1)
proof (cases rule: sched_own.cases)
  case sched
  then show ?thesis using inv_next assms(2) by blast
next
  case call
  then show ?thesis using assms(2) by (simp add: sched_inv_def at_pc_def)
next
  case (notify t e)
  then have "announced s' h" if "announced s h" for h
    using that assms(2) by (auto simp: sched_inv_def notify_pipe_def announced_def)
  with notify assms(2) show ?thesis by (auto simp: sched_inv_def notify_pipe_def split: if_splits)
qed

lemma inv_step:
  assumes "sched_step ms s s'" and "sched_inv ms s"
  shows "sched_inv ms s'"
  using assms(1)
proof (cases rule: sched_step.cases)
  case own
  then show ?thesis using inv_own assms(2) by blast
next
  case timeout
  then show ?thesis using assms(2) by (simp add: sched_inv_def at_pc_def)
next
  case (raise t e)
  then have "announced s' h" if "announced s h \<or> h = e" for h
    using that by (auto simp: announced_def intro: exI [of _ t]) (metis option.distinct(1))
  with raise assms(2) show ?thesis by (auto simp: sched_inv_def)
next
  case (lower e)
  then show ?thesis using assms(2) by (simp add: sched_inv_def announced_def)
next
  case wake
  then have "announced s' h" if "announced s h" for h
    using that by (auto simp: announced_def notify_pipe_def)
  with wake assms(2) show ?thesis by (auto simp: sched_inv_def notify_pipe_def split: if_splits)
qed

lemma sched_reach_inv: "sched_reach ms s \<Longrightarrow> sched_inv ms s"
proof (induction rule: sched_reach.induct)
  case (start n k)
  then show ?case by (simp add: sched_inv_def sched_start_def)
qed (rule inv_step)

section \<open>Runs of the scheduler\<close>

text \<open>The scheduler and the pending setters can bring the wait to return a member.\<close>

definition reports :: "handle list \<Rightarrow> sched_sys \<Rightarrow> bool" where
  "reports ms s \<longleftrightarrow> (\<exists>s' x. (sched_own ms)\<^sup>*\<^sup>* s s' \<and> ss_pc s' = Sched_done x \<and> x \<in> set ms)"

lemma reports_own: "sched_own ms s s' \<Longrightarrow> reports ms s' \<Longrightarrow> reports ms s"
  unfolding reports_def by (meson converse_rtranclp_into_rtranclp)

lemmas reports_next = reports_own [OF sched_own.sched]

lemma reports_done: "ss_pc s = Sched_done x \<Longrightarrow> x \<in> set ms \<Longrightarrow> reports ms s"
  unfolding reports_def by blast

lemma reports_take: "ss_pc s = Sched_take x \<or> ss_pc s = Sched_consume x \<Longrightarrow> x \<in> set ms \<Longrightarrow> reports ms s"
  by (rule reports_next [where s' = "at_pc (Sched_done x) (lower_auto x s)"])
    (auto simp: sched_next_def at_pc_def intro: reports_done)

lemma reports_scan:
  assumes "ss_pc s = Sched_scan ls hs" and "ss_flag s h" and "h \<in> set hs" and "set hs \<subseteq> set ms"
  shows "reports ms s"
  using assms
proof (induction hs arbitrary: ls s)
  case (Cons x hs)
  show ?case
  proof (cases "ss_flag s x")
    case True
    then show ?thesis using Cons.prems
      by (intro reports_next [OF _ reports_take [of "at_pc (Sched_take x) s" x]])
        (auto simp: sched_next_def at_pc_def)
  next
    case False
    let ?s = "at_pc (Sched_scan (ls @ [x]) hs) s"
    have "sched_next ms s = Some ?s" using False Cons.prems(1) by (simp add: sched_next_def)
    moreover have "reports ms ?s"
      using False Cons.prems by (intro Cons.IH [of ?s "ls @ [x]"]) (auto simp: at_pc_def)
    ultimately show ?thesis by (rule reports_next)
  qed
qed simp

lemma reports_purge:
  assumes "ss_pc s = Sched_purge" and "ss_flag s h" and "h \<in> set ms"
  shows "reports ms s"
  using assms
proof (induction "ss_pipe s" arbitrary: s)
  case Nil
  show ?case
    by (rule reports_next [of _ _ "at_pc (Sched_scan [] ms) s"], use Nil in \<open>simp add: sched_next_def\<close>)
      (rule reports_scan [of _ "[]" ms h], use Nil in \<open>simp_all add: at_pc_def\<close>)
next
  case (Cons x xs)
  show ?case
    by (rule reports_next [of _ _ "s\<lparr>ss_pipe := xs\<rparr>"], use Cons(2) [symmetric] Cons.prems in \<open>simp add: sched_next_def\<close>)
      (rule Cons(1), use Cons.prems in simp_all)
qed

lemma reports_call:
  assumes "ss_pc s = Sched_out" and "ss_flag s h" and "h \<in> set ms"
  shows "reports ms s"
  by (rule reports_own [OF sched_own.call [OF assms(1)]])
    (rule reports_purge [of _ h], use assms in \<open>simp_all add: at_pc_def\<close>)

lemma reports_again:
  assumes "ss_pc s = Sched_done x" and "ss_flag s h" and "h \<in> set ms"
  shows "reports ms s"
  by (rule reports_next [of _ _ "at_pc Sched_out s"], use assms in \<open>simp add: sched_next_def\<close>)
    (rule reports_call [of _ h], use assms in \<open>simp_all add: at_pc_def\<close>)

lemma reports_test:
  assumes "ss_pc s = Sched_test x" and "x \<in> set ms" and "reports ms (at_pc Sched_read s)"
  shows "reports ms s"
proof (cases "ss_flag s x")
  case True
  then show ?thesis using assms
    by (intro reports_next [OF _ reports_take [of "at_pc (Sched_consume x) s" x]])
      (auto simp: sched_next_def at_pc_def)
next
  case False
  with assms(1) show ?thesis by (intro reports_next [OF _ assms(3)]) (simp add: sched_next_def)
qed

lemma reports_read:
  assumes "ss_pc s = Sched_read" and "ss_flag s h" and "h \<in> set ms"
  shows "reports ms s"
  using assms
proof (induction "ss_pipe s" arbitrary: s)
  case Nil
  show ?case
    by (rule reports_next [of _ _ "at_pc (Sched_done OFC_HANDLE_NULL) s"],
        use Nil in \<open>simp add: sched_next_def\<close>)
      (rule reports_again [of _ _ h], use Nil in \<open>simp_all add: at_pc_def\<close>)
next
  case (Cons x xs)
  let ?s = "\<lambda>p. at_pc p (s\<lparr>ss_pipe := xs\<rparr>)"
  have nxt: "sched_next ms s = Some (?s (if x = OFC_HANDLE_NULL then Sched_done OFC_HANDLE_NULL
      else if x \<in> set ms then Sched_test x else Sched_read))"
    using Cons(2) [symmetric] Cons.prems(1) by (simp add: sched_next_def)
  have again: "reports ms (?s Sched_read)" using Cons.prems by (intro Cons(1)) (simp_all add: at_pc_def)
  have "reports ms (?s (Sched_test x))" if "x \<in> set ms"
    using reports_test [of "?s (Sched_test x)" x ms] again that by (simp add: at_pc_def)
  moreover have "reports ms (?s (Sched_done OFC_HANDLE_NULL))"
    by (rule reports_again [of _ _ h]) (use Cons.prems in \<open>simp_all add: at_pc_def\<close>)
  ultimately have "reports ms (?s (if x = OFC_HANDLE_NULL then Sched_done OFC_HANDLE_NULL
      else if x \<in> set ms then Sched_test x else Sched_read))" using again by simp
  with nxt show ?case by (rule reports_next)
qed

lemma reports_poll:
  assumes "ss_pc s = Sched_poll" and "ss_flag s h" and "h \<in> set ms" and "announced s h" and "0 < ss_cap s"
  shows "reports ms s"
proof -
  have ready: "reports ms s" if "ss_pc s = Sched_poll" "ss_flag s h" "ss_pipe s \<noteq> []" for s
    by (rule reports_next [of _ _ "at_pc Sched_read s"], use that in \<open>simp add: sched_next_def\<close>)
      (rule reports_read [of _ h], use that assms(3) in \<open>simp_all add: at_pc_def\<close>)
  show ?thesis
  proof (cases "ss_pipe s = []")
    case True
    then obtain t where t: "ss_set s t = Some h" using assms(4) by (auto simp: announced_def)
    show ?thesis
      by (rule reports_own [OF sched_own.notify [OF t]], rule ready)
        (use assms True in \<open>simp_all add: notify_pipe_def\<close>)
  qed (use ready assms in blast)
qed

lemma reports_scanned:
  assumes "ss_pc s = Sched_scan ls hs" and "set hs \<subseteq> set ms" and "ss_flag s h" and "h \<in> set ms"
    and "announced s h" and "0 < ss_cap s"
  shows "reports ms s"
  using assms
proof (induction hs arbitrary: ls s)
  case Nil
  show ?case
    by (rule reports_next [of _ _ "at_pc Sched_poll s"], use Nil in \<open>simp add: sched_next_def\<close>)
      (rule reports_poll [of _ h], use Nil in \<open>simp_all add: at_pc_def announced_def\<close>)
next
  case (Cons x hs)
  show ?case
  proof (cases "ss_flag s x")
    case True
    with Cons.prems show ?thesis by (intro reports_scan [of s ls "x # hs" x]) auto
  next
    case False
    let ?s = "at_pc (Sched_scan (ls @ [x]) hs) s"
    have "sched_next ms s = Some ?s" using False Cons.prems(1) by (simp add: sched_next_def)
    moreover have "reports ms ?s"
      using Cons.prems by (intro Cons.IH [of ?s "ls @ [x]"]) (auto simp: at_pc_def announced_def)
    ultimately show ?thesis by (rule reports_next)
  qed
qed

section \<open>Properties\<close>

text \<open>
  C6: The scheduler never sleeps on an event. In every interleaving of the wait with any number
  of threads that raise, lower and wake: while the scheduler is in \<open>poll\<close> and a member of the set
  is raised, the pipe has something to read or the thread that raised the member is about to
  write its notification.
\<close>

theorem sched_never_sleeps:
  assumes "sched_reach ms s" and "ss_pc s = Sched_poll" and "h \<in> set ms" and "ss_flag s h"
  shows "ss_pipe s \<noteq> [] \<or> (\<exists>t. ss_set s t = Some h)"
  using sched_reach_inv [OF assms(1)] assms(2-4) by (auto simp: sched_inv_def announced_def)

text \<open>The scheduler sleeps on the set of event 5, which thread 1 has just raised.\<close>

definition sleeping_on_raised :: sched_sys where
  "sleeping_on_raised = \<lparr>ss_kind = (\<lambda>_. OFC_EVENT_AUTO), ss_flag = (\<lambda>_. False)(Handle 5 := True),
     ss_pipe = [], ss_cap = 8, ss_pc = Sched_poll, ss_set = (\<lambda>_. None)(1 := Some (Handle 5))\<rparr>"

lemma sleeping_on_raised_reach: "sched_reach [Handle 5] sleeping_on_raised"
proof -
  let ?s = "\<lambda>p. at_pc p (sched_start (\<lambda>_. OFC_EVENT_AUTO) 8)"
  note to = sched_reach.step [OF _ sched_step.own]
  have "sched_reach [Handle 5] (?s Sched_out)"
    using sched_reach.start [of 8] by (simp add: at_pc_def sched_start_def)
  then have "sched_reach [Handle 5] (?s Sched_purge)"
    by (rule to) (use sched_own.call [of "?s Sched_out"] in \<open>simp add: at_pc_def sched_start_def\<close>)
  then have "sched_reach [Handle 5] (?s (Sched_scan [] [Handle 5]))"
    by (rule to, intro sched_own.sched) (simp add: sched_next_def at_pc_def sched_start_def)
  then have "sched_reach [Handle 5] (?s (Sched_scan [Handle 5] []))"
    by (rule to, intro sched_own.sched) (simp add: sched_next_def at_pc_def sched_start_def)
  then have "sched_reach [Handle 5] (?s Sched_poll)"
    by (rule to, intro sched_own.sched) (simp add: sched_next_def at_pc_def sched_start_def)
  then have "sched_reach [Handle 5] ((?s Sched_poll)\<lparr>ss_flag := (ss_flag (?s Sched_poll))(Handle 5 := True),
      ss_set := (ss_set (?s Sched_poll))(1 \<mapsto> Handle 5)\<rparr>)"
    by (rule sched_reach.step, intro sched_step.raise) (simp add: at_pc_def sched_start_def)
  then show ?thesis by (simp add: at_pc_def sched_start_def sleeping_on_raised_def)
qed

theorem sched_never_sleeps_witness:
  "ss_pipe sleeping_on_raised = [] \<and> (\<exists>t. ss_set sleeping_on_raised t = Some (Handle 5))"
  using sched_never_sleeps [OF sleeping_on_raised_reach, of "Handle 5"]
  by (simp add: sleeping_on_raised_def)

text \<open>
  C5: A raised event is reported. Wherever the scheduler is when a member of its set is raised, its own
  steps and the notifications under way suffice to make a wait return a member of the set: no
  further event, wake-up or time-out is needed.
\<close>

theorem raised_event_reported:
  assumes "sched_reach ms s" and "h \<in> set ms" and "ss_flag s h"
  shows "\<exists>s' x. (sched_own ms)\<^sup>*\<^sup>* s s' \<and> ss_pc s' = Sched_done x \<and> x \<in> set ms"
proof -
  have i: "sched_inv ms s" by (rule sched_reach_inv [OF assms(1)])
  have "reports ms s"
  proof (cases "ss_pc s")
    case Sched_out then show ?thesis using reports_call assms by blast
  next
    case Sched_purge then show ?thesis using reports_purge assms by blast
  next
    case (Sched_scan ls hs)
    with i have m: "ls @ hs = ms" and "h \<in> set ls \<Longrightarrow> announced s h" and "0 < ss_cap s"
      using assms(3) by (auto simp: sched_inv_def)
    then show ?thesis
      using reports_scan [OF Sched_scan assms(3)] reports_scanned [OF Sched_scan _ assms(3,2)] assms(2)
      by fastforce
  next
    case (Sched_take x) then show ?thesis using reports_take i by (auto simp: sched_inv_def)
  next
    case Sched_poll
    then show ?thesis using reports_poll [OF _ assms(3,2)] i assms by (auto simp: sched_inv_def)
  next
    case Sched_read then show ?thesis using reports_read assms by blast
  next
    case (Sched_test x)
    have "reports ms (at_pc Sched_read s)"
      by (rule reports_read [of _ h]) (use assms in \<open>simp_all add: at_pc_def\<close>)
    then show ?thesis using reports_test [OF Sched_test] i Sched_test by (simp add: sched_inv_def)
  next
    case (Sched_consume x) then show ?thesis using reports_take i by (auto simp: sched_inv_def)
  next
    case (Sched_done x) then show ?thesis using reports_again assms by blast
  qed
  then show ?thesis by (simp add: reports_def)
qed

theorem raised_event_reported_witness:
  "\<exists>s' x. (sched_own [Handle 5])\<^sup>*\<^sup>* sleeping_on_raised s' \<and> ss_pc s' = Sched_done x \<and> x \<in> {Handle 5}"
  using raised_event_reported [OF sleeping_on_raised_reach, of "Handle 5"]
  by (simp add: sleeping_on_raised_def)

section \<open>The system and the wait\<close>

text \<open>A world with wait set \<open>h\<close> as a state of the system, no setter under way.\<close>

definition view_of :: "'h core_api \<Rightarrow> handle \<Rightarrow> sched_pc \<Rightarrow> 'h world \<Rightarrow> sched_sys" where
  "view_of C h p w = \<lparr>ss_kind = (\<lambda>e. ev_kind C e w), ss_flag = (\<lambda>e. ev_signalled C e w),
     ss_pipe = pending C h w, ss_cap = ws_capacity C h w, ss_pc = p, ss_set = (\<lambda>_. None)\<rparr>"

definition alone_step :: "handle list \<Rightarrow> sched_sys \<Rightarrow> sched_sys \<Rightarrow> bool" where
  "alone_step ms s s' \<longleftrightarrow> sched_next ms s = Some s'"

lemma alone_next: "sched_next ms s = Some s' \<Longrightarrow> (alone_step ms)\<^sup>*\<^sup>* s' t \<Longrightarrow> (alone_step ms)\<^sup>*\<^sup>* s t"
  by (metis alone_step_def converse_rtranclp_into_rtranclp)

lemma alone_last: "sched_next ms s = Some s' \<Longrightarrow> (alone_step ms)\<^sup>*\<^sup>* s s'"
  by (simp add: alone_step_def r_into_rtranclp)

lemma at_pc_sel:
  "at_pc p (at_pc q s) = at_pc p s" "lower_auto x (at_pc p s) = at_pc p (lower_auto x s)"
  "ss_flag (at_pc p s) = ss_flag s" "ss_pc (at_pc p s) = p" "ss_pipe (at_pc p s) = ss_pipe s"
  "(at_pc p s)\<lparr>ss_pipe := q'\<rparr> = at_pc p (s\<lparr>ss_pipe := q'\<rparr>)"
  by (simp_all add: at_pc_def lower_auto_def)

lemma run_purge:
  assumes "ss_pc s = Sched_purge"
  shows "(alone_step ms)\<^sup>*\<^sup>* s (s\<lparr>ss_pipe := [], ss_pc := Sched_scan [] ms\<rparr>)"
  using assms
proof (induction "ss_pipe s" arbitrary: s)
  case Nil
  then have "s\<lparr>ss_pipe := []\<rparr> = s" by simp
  with Nil show ?case by (intro alone_last) (simp add: sched_next_def at_pc_def)
next
  case (Cons x xs)
  from Cons(1) [of "s\<lparr>ss_pipe := xs\<rparr>"] Cons.prems have
    "(alone_step ms)\<^sup>*\<^sup>* (s\<lparr>ss_pipe := xs\<rparr>) (s\<lparr>ss_pipe := [], ss_pc := Sched_scan [] ms\<rparr>)" by simp
  then show ?case
    by (rule alone_next [rotated]) (simp add: sched_next_def Cons.prems Cons(2) [symmetric])
qed

lemma run_scan:
  assumes "ss_pc s = Sched_scan ls hs"
  shows "(alone_step ms)\<^sup>*\<^sup>* s (case List.find (ss_flag s) hs of
    Some x \<Rightarrow> at_pc (Sched_done x) (lower_auto x s) | None \<Rightarrow> at_pc Sched_poll s)"
  using assms
proof (induction hs arbitrary: ls s)
  case Nil
  then show ?case by (intro alone_last) (simp add: sched_next_def)
next
  case (Cons x hs)
  show ?case
  proof (cases "ss_flag s x")
    case True
    then have "(alone_step ms)\<^sup>*\<^sup>* (at_pc (Sched_take x) s) (at_pc (Sched_done x) (lower_auto x s))"
      by (intro alone_last) (simp add: sched_next_def sched_moves)
    with True Cons.prems show ?thesis by (intro alone_next [of ms s "at_pc (Sched_take x) s"])
        (simp_all add: sched_next_def)
  next
    case False
    let ?s = "at_pc (Sched_scan (ls @ [x]) hs) s"
    have "sched_next ms s = Some ?s" using False Cons.prems by (simp add: sched_next_def)
    moreover have "(alone_step ms)\<^sup>*\<^sup>* ?s (case List.find (ss_flag s) (x # hs) of
        Some x \<Rightarrow> at_pc (Sched_done x) (lower_auto x s) | None \<Rightarrow> at_pc Sched_poll s)"
      using Cons.IH [of ?s "ls @ [x]"] False by (simp add: at_pc_sel cong: option.case_cong)
    ultimately show ?thesis by (rule alone_next)
  qed
qed

definition event_elements :: "handle list \<Rightarrow> EVENT_ELEMENT list" where
  "event_elements ms = map (\<lambda>h. \<lparr>hEvent = h, hAssoc = h\<rparr>) ms"

lemma find_event_element:
  "List.find (\<lambda>e. hEvent e = x) (event_elements ms) = (if x \<in> set ms then Some \<lparr>hEvent = x, hAssoc = x\<rparr> else None)"
  by (induction ms) (auto simp: event_elements_def)

lemma run_read:
  assumes "ss_pc s = Sched_read"
    and "poll_outcome (event_elements ms) (ss_flag s) (ss_pipe s) = (r, c, buf)"
  shows "(alone_step ms)\<^sup>*\<^sup>* s (at_pc (Sched_done r)
    ((case c of None \<Rightarrow> id | Some e \<Rightarrow> lower_auto e) (s\<lparr>ss_pipe := buf\<rparr>)))"
  using assms
proof (induction "ss_pipe s" arbitrary: s)
  case Nil
  have s: "s\<lparr>ss_pipe := []\<rparr> = s" using Nil by simp
  have o: "r = OFC_HANDLE_NULL" "c = None" "buf = []" using Nil by (simp_all add: Nil(1) [symmetric])
  show ?case unfolding o option.case id_apply s
    by (rule alone_last) (use Nil in \<open>simp add: sched_next_def\<close>)
next
  case (Cons x xs)
  let ?s = "\<lambda>p. at_pc p (s\<lparr>ss_pipe := xs\<rparr>)"
  let ?t = "at_pc (Sched_done r) ((case c of None \<Rightarrow> id | Some e \<Rightarrow> lower_auto e) (s\<lparr>ss_pipe := buf\<rparr>))"
  have nxt: "sched_next ms s = Some (?s (if x = OFC_HANDLE_NULL then Sched_done OFC_HANDLE_NULL
      else if x \<in> set ms then Sched_test x else Sched_read))"
    using Cons(2) [symmetric] Cons.prems(1) by (simp add: sched_next_def)
  have on: "(alone_step ms)\<^sup>*\<^sup>* (?s Sched_read) ?t"
    if "poll_outcome (event_elements ms) (ss_flag s) xs = (r, c, buf)"
    using Cons(1) [of "?s Sched_read"] that by (cases c) (simp_all add: at_pc_sel)
  have out: "poll_outcome (event_elements ms) (ss_flag s) (x # xs) = (r, c, buf)"
    using Cons.prems(2) Cons(2) by simp
  consider "x = OFC_HANDLE_NULL" | "x \<noteq> OFC_HANDLE_NULL" "x \<notin> set ms"
    | "x \<noteq> OFC_HANDLE_NULL" "x \<in> set ms" "\<not> ss_flag s x" | "x \<noteq> OFC_HANDLE_NULL" "x \<in> set ms" "ss_flag s x"
    by blast
  then show ?case
  proof cases
    case 1
    with out nxt show ?thesis by (auto intro: alone_last)
  next
    case 2
    with out nxt on show ?thesis by (auto simp: find_event_element intro: alone_next)
  next
    case 3
    then have "sched_next ms (?s (Sched_test x)) = Some (?s Sched_read)"
      by (simp add: sched_next_def at_pc_def)
    with 3 out on have "(alone_step ms)\<^sup>*\<^sup>* (?s (Sched_test x)) ?t"
      by (auto simp: find_event_element intro: alone_next)
    with 3 nxt show ?thesis by (auto intro: alone_next)
  next
    case 4
    then have t: "?t = at_pc (Sched_done x) (lower_auto x (s\<lparr>ss_pipe := xs\<rparr>))"
      using out by (auto simp: find_event_element)
    have "sched_next ms (?s (Sched_test x)) = Some (?s (Sched_consume x))"
      "sched_next ms (?s (Sched_consume x)) = Some ?t"
      using 4 unfolding t by (simp_all add: sched_next_def sched_moves)
    then have "(alone_step ms)\<^sup>*\<^sup>* (?s (Sched_test x)) ?t" by (blast intro: alone_next alone_last)
    with 4 nxt show ?thesis by (auto intro: alone_next)
  qed
qed

lemma at_pc_view [simp]: "at_pc p (view_of C h q w) = view_of C h p w"
  by (simp add: at_pc_def view_of_def)

lemma view_sel [simp]:
  "ss_pc (view_of C h p w) = p" "ss_flag (view_of C h p w) = (\<lambda>e. ev_signalled C e w)"
  "ss_pipe (view_of C h p w) = pending C h w"
  by (simp_all add: view_of_def)

lemma view_refilled:
  assumes "ws_pipe C h w = Some k" and "pipes w k = Some q"
  shows "view_of C h p (refilled k q b w) = (view_of C h p w)\<lparr>ss_pipe := b\<rparr>"
proof -
  obtain c where "pipes w k = Some c" "0 < pcap c" using assms(1) by (rule ws_pipe_implE)
  then have k: "ws_pipe C h (refilled k q b w) = Some k" "pipes (refilled k q b w) k = Some (q\<lparr>pbuf := b\<rparr>)"
    using ws_pipe_update [OF assms(1), of "q\<lparr>pbuf := b\<rparr>"] assms(2) by (simp_all add: refilled_def)
  have "pending C h (refilled k q b w) = b" "ws_capacity C h (refilled k q b w) = ws_capacity C h w"
    using pending_pipe [OF k] ws_capacity_pipe [OF k] ws_capacity_pipe [OF assms] by simp_all
  then show ?thesis by (simp add: view_of_def) (simp add: refilled_def)
qed

lemma view_write:
  assumes "handle_laws C" and "ev_at C x w \<noteq> None"
  shows "view_of C h p (ev_write C x b w) =
    (view_of C h p w)\<lparr>ss_flag := (ss_flag (view_of C h p w))(x := b)\<rparr>"
proof -
  have "pending C h (ev_write C x b w) = pending C h w"
    "ws_capacity C h (ev_write C x b w) = ws_capacity C h w"
    by (simp_all add: pending_def pipe_items_def ws_capacity_def ws_pipe_write frame)
  then show ?thesis
    using assms by (simp add: view_of_def ev_kind_write ev_signalled_write fun_eq_iff)
qed

lemma view_consumed:
  assumes "handle_laws C" and "ev_at C x w \<noteq> None"
  shows "view_of C h p (consumed C x w) = lower_auto x (view_of C h p w)"
  using view_write [OF assms, of h p False]
  by (simp add: lower_auto_def consumed_def) (simp add: view_of_def)

lemma view_signalled:
  assumes "handle_laws C" and "ws_pipe C h w = Some k" and "pipes w k = Some q"
    and "ofc_waitset_signal_impl C h e w = Some v"
  shows "view_of C h p v = notify_pipe e (view_of C h p w)"
proof -
  have room: "length (ss_pipe (view_of C h p w)) < ss_cap (view_of C h p w) \<longleftrightarrow> length (pbuf q) < pcap q"
    by (simp add: view_of_def pending_pipe [OF assms(2,3)] ws_capacity_pipe [OF assms(2,3)])
  show ?thesis
  proof (cases "length (pbuf q) < pcap q")
    case True
    then have "v = refilled k q (pbuf q @ [e]) w"
      using assms(4) by (simp add: signal_eq [OF assms(1-3)] refilled_def)
    then show ?thesis
      using True room by (simp add: view_refilled [OF assms(2,3)] notify_pipe_def pending_pipe [OF assms(2,3)])
  next
    case False
    then have "v = w" using assms(4) by (simp add: signal_eq [OF assms(1-3)])
    then show ?thesis using False room by (simp add: notify_pipe_def)
  qed
qed

text \<open>
  \<open>v\<close> is a world the other threads can have left while the wait on \<open>h\<close> was blocked in \<open>w\<close>: the set
  and its members, all live events, are still there.
\<close>

definition set_kept :: "'h core_api \<Rightarrow> handle \<Rightarrow> 'h world \<Rightarrow> 'h world \<Rightarrow> bool" where
  "set_kept C h w v \<longleftrightarrow> core v = core w \<and> ws_cells v = ws_cells w \<and> dws_cells v = dws_cells w \<and>
     ws_pipe C h v \<noteq> None \<and> pending C h v \<noteq> [] \<and>
     (\<forall>x \<in> set (members C h w). ev_usable C x v \<and> ev_at C x v \<noteq> None)"

definition all_events :: "'h core_api \<Rightarrow> handle \<Rightarrow> 'h world \<Rightarrow> bool" where
  "all_events C h w \<longleftrightarrow> (\<forall>x \<in> set (members C h w).
     ofc_handle_get_type C x (core w) = OFC_HANDLE_EVENT \<and> ev_at C x w \<noteq> None)"

lemma concat_singles: "\<forall>x \<in> set xs. f x = [g x] \<Longrightarrow> concat (map f xs) = map g xs"
  by (induction xs) simp_all

lemma events_awaited: "all_events C h w \<Longrightarrow> awaited_all C h w = event_elements (members C h w)"
  unfolding all_events_def awaited_all_def event_elements_def
  by (rule concat_singles) (simp add: awaited_def)

lemma events_find:
  "all_events C h w \<Longrightarrow>
   List.find (handle_ready C w) (members C h w) = List.find (\<lambda>x. ev_signalled C x w) (members C h w)"
  unfolding all_events_def
  by (intro find_cong) (simp_all add: handle_ready_def)

text \<open>
  C7: The interleaved system is the code's wait. On a set of live events, the steps of the undisturbed
  scheduler through the purge and the scan lead to the return of the member, and the world, that
  \<open>ofc_waitset_wait_impl\<close> returns; or to its \<open>poll\<close> with an empty pipe, and from there, in whatever
  world \<open>poll\<close> reports the pipe readable, to the return of what the wait returns.
\<close>

theorem wait_steps_match:
  assumes "waitable C Q h w" and "all_events C h w" and "set_kept C h w v"
    and "poll_answers C Q poll h w n (p # ps) v" and "0 < n" and "revents p \<noteq> 0"
  defines "ms \<equiv> members C h w" and "start \<equiv> view_of C h Sched_purge w"
  shows "\<exists>r w'. ofc_waitset_wait_impl C Q (event_impl C) poll h w = Some (r, w') \<and>
    (case List.find (\<lambda>x. ev_signalled C x w) ms of
       Some x \<Rightarrow> r = x \<and> (alone_step ms)\<^sup>*\<^sup>* start (view_of C h (Sched_done r) w')
     | None \<Rightarrow> (alone_step ms)\<^sup>*\<^sup>* start (view_of C h Sched_poll (purged C h w)) \<and>
         (alone_step ms)\<^sup>*\<^sup>* (view_of C h Sched_poll v) (view_of C h (Sched_done r) w'))"
proof -
  from assms(1) obtain k q D d where l: "handle_laws C" "ws_pipe C h w = Some k" "pipes w k = Some q"
    "ws_impl C h w = Some D" "ws_addr C h w = Some d" "dws_cells w d = Some D"
    and pv: "purged C h w = refilled k q [] w"
    by (rule waitableE) (simp add: refilled_def)
  have "start\<lparr>ss_pipe := [], ss_pc := Sched_scan [] ms\<rparr> = view_of C h (Sched_scan [] ms) (purged C h w)"
    unfolding pv view_refilled [OF l(2,3)] by (simp add: start_def view_of_def)
  then have purge: "(alone_step ms)\<^sup>*\<^sup>* start (view_of C h (Sched_scan [] ms) (purged C h w))"
    using run_purge [of start ms] by (simp add: start_def)
  have fl: "ev_signalled C x (purged C h w) = ev_signalled C x w" for x by (simp add: pv refilled_def)
  show ?thesis
  proof (cases "List.find (\<lambda>x. ev_signalled C x w) ms")
    case (Some x)
    have x: "x \<in> set ms" using find_SomeD [OF Some] by simp
    then have at: "ev_at C x (purged C h w) \<noteq> None" "ofc_handle_get_type C x (core w) = OFC_HANDLE_EVENT"
      using assms(2) by (auto simp: all_events_def ms_def pv refilled_def ev_at_def)
    let ?w' = "consumed C x (purged C h w)"
    have "ofc_waitset_wait_impl C Q (event_impl C) poll h w = Some (x, ?w')"
      using Some at(2) events_find [OF assms(2)]
      by (simp add: wait_scan [OF assms(1) l(5)] ms_def taken_def pv refilled_def)
    moreover have "(alone_step ms)\<^sup>*\<^sup>* start (view_of C h (Sched_done x) ?w')"
      using run_scan [of "view_of C h (Sched_scan [] ms) (purged C h w)" "[]" ms ms] purge Some
      by (simp add: fl view_consumed [OF l(1) at(1)] flip: at_pc_sel(2))
    ultimately show ?thesis using Some by auto
  next
    case None
    have none: "none_ready C h w"
    proof -
      have "List.find (handle_ready C w) (members C h w) = None"
        using None events_find [OF assms(2)] by (simp add: ms_def)
      then show ?thesis by (auto simp: none_ready_def find_None_iff)
    qed
    have "(alone_step ms)\<^sup>*\<^sup>* start (view_of C h Sched_poll (purged C h w))"
      using run_scan [of "view_of C h (Sched_scan [] ms) (purged C h w)" "[]" ms ms] purge None by (simp add: fl)
    moreover have v': "core v = core w" "ws_cells v = ws_cells w" "dws_cells v = dws_cells w" "ws_pipe C h v \<noteq> None"
      and vp: "pending C h v \<noteq> []" and vu: "\<forall>x \<in> set ms. ev_usable C x v \<and> ev_at C x v \<noteq> None"
      using assms(3) by (simp_all add: set_kept_def ms_def)
    then obtain k' where k': "ws_pipe C h v = Some k'" by blast
    then obtain q' where "pipes v k' = Some q'" by (rule ws_pipe_implE)
    note v = k' this
    have "ws_impl C h v = ws_impl C h w" by (simp add: ws_impl_def v'(1-3))
    then have D: "nb_pipe D v = Some k'" using v(1) l(4) by (simp add: ws_pipe_def)
    obtain r c buf where out: "poll_outcome (event_elements ms) (\<lambda>h. ev_signalled C h v) (pbuf q') = (r, c, buf)"
      by (cases "poll_outcome (event_elements ms) (\<lambda>h. ev_signalled C h v) (pbuf q')")
    let ?v = "refilled k' q' buf v"
    let ?w' = "case c of None \<Rightarrow> ?v | Some e \<Rightarrow> consumed C e ?v"
    have us: "\<forall>e \<in> set (awaited_all C h w). ev_usable C (hEvent e) v"
      using vu by (auto simp: events_awaited [OF assms(2)] event_elements_def ms_def)
    have "ofc_waitset_wait_impl C Q (event_impl C) poll h w = Some (r, ?w')"
      using wait_notified [OF assms(1) none assms(4-6) l(5) _ D v(2) us] out l(6) v'(3)
      by (simp add: events_awaited [OF assms(2)] ms_def Let_def refilled_def split: option.split)
    moreover have "(alone_step ms)\<^sup>*\<^sup>* (view_of C h Sched_poll v) (view_of C h (Sched_done r) ?w')"
    proof (rule alone_next)
      show "sched_next ms (view_of C h Sched_poll v) = Some (view_of C h Sched_read v)"
        using vp by (simp add: sched_next_def)
      have "view_of C h (Sched_done r) ?w' = at_pc (Sched_done r)
          ((case c of None \<Rightarrow> id | Some e \<Rightarrow> lower_auto e) ((view_of C h Sched_read v)\<lparr>ss_pipe := buf\<rparr>))"
      proof (cases c)
        case None
        then show ?thesis by (simp flip: view_refilled [OF v])
      next
        case (Some e)
        then have "e \<in> set ms" using poll_outcome_cases [OF out] by (auto simp: event_elements_def)
        then have "ev_at C e ?v \<noteq> None" using vu by (simp add: refilled_def ev_at_def)
        with Some show ?thesis
          by (simp add: view_consumed [OF l(1)] flip: view_refilled [OF v] at_pc_sel(2))
      qed
      then show "(alone_step ms)\<^sup>*\<^sup>* (view_of C h Sched_read v) (view_of C h (Sched_done r) ?w')"
        using run_read [of "view_of C h Sched_read v" ms r c buf] out pending_pipe [OF v] by simp
    qed
    ultimately show ?thesis using None by auto
  qed
qed

text \<open>Wait set 7 of \<open>Demo_Sched\<close> with event 5 as its only member.\<close>

definition demo_event_set :: "bool \<Rightarrow> handle list \<Rightarrow> demo world" where
  "demo_event_set b buf = (demo_sched b buf)\<lparr>core := sched_core\<lparr>d_queue := [5]\<rparr>\<rparr>"

lemma event_set_sel [simp]:
  "core (demo_event_set b buf) = sched_core\<lparr>d_queue := [5]\<rparr>"
  "ev_cells (demo_event_set b buf) = ev_cells (demo_sched b buf)"
  "ws_cells (demo_event_set b buf) = ws_cells (demo_sched b buf)"
  "dws_cells (demo_event_set b buf) = dws_cells (demo_sched b buf)"
  "fds (demo_event_set b buf) = fds (demo_sched b buf)"
  "pipes (demo_event_set b buf) = pipes (demo_sched b buf)"
  by (simp_all add: demo_event_set_def del: demo_sched_sel)

lemma event_set_facts:
  "ws_pipe demo_api (Handle 7) (demo_event_set b buf) = Some 0"
  "members demo_api (Handle 7) (demo_event_set b buf) = [Handle 5]"
  "ev_at demo_api (Handle 5) (demo_event_set b buf) =
     Some \<lparr>eventType = OFC_EVENT_AUTO, signalled = b, mutex_held = False\<rparr>"
  by (simp_all add: ws_pipe_def ws_impl_def nb_pipe_def members_def ev_at_def)

lemma event_set_waitable: "waitable demo_api demo_fifo (Handle 7) (demo_event_set b buf)"
  by (simp add: waitable_def event_set_facts scannable_def ev_usable_def)

theorem wait_steps_match_witness:
  "\<exists>r w'. ofc_waitset_wait_impl demo_api demo_fifo (event_impl demo_api)
      (\<lambda>_ _ _. Some (1, [\<lparr>fd = 3, events = POLLIN, revents = POLLIN\<rparr>], demo_event_set True [Handle 5]))
      (Handle 7) (demo_event_set False []) = Some (r, w') \<and>
    (alone_step [Handle 5])\<^sup>*\<^sup>* (view_of demo_api (Handle 7) Sched_poll (demo_event_set True [Handle 5]))
      (view_of demo_api (Handle 7) (Sched_done r) w')"
proof -
  let ?v = "demo_event_set True [Handle 5]"
  let ?poll = "\<lambda>_ _ _. Some (1, [\<lparr>fd = 3, events = POLLIN, revents = POLLIN\<rparr>], ?v)"
  have "all_events demo_api (Handle 7) (demo_event_set False [])"
    by (simp add: all_events_def event_set_facts)
  moreover have "pending demo_api (Handle 7) ?v = [Handle 5]"
    by (simp add: pending_def pipe_items_def event_set_facts)
  then have "set_kept demo_api (Handle 7) (demo_event_set False []) ?v"
    by (simp add: set_kept_def event_set_facts ev_usable_def)
  moreover have "poll_answers demo_api demo_fifo ?poll (Handle 7) (demo_event_set False []) 1
      [\<lparr>fd = 3, events = POLLIN, revents = POLLIN\<rparr>] ?v" by (simp add: poll_answers_def)
  ultimately show ?thesis
    using wait_steps_match [OF event_set_waitable, of False "[]" ?v ?poll 1]
    by (force simp: event_set_facts ev_signalled_def POLLIN_def)
qed

text \<open>
  C32: The steps of the other threads are the code's operations. On a live event of the wait set,
  \<open>ofc_event_set_impl\<close> is a raise followed by the notification under way; \<open>ofc_event_reset_impl\<close> is a
  lowering; and \<open>ofc_waitset_wake_impl\<close> is a wake-up, full pipes included.
\<close>

theorem setter_steps_match:
  assumes "waitable C Q h w" and "ev_usable C e w" and "ev_at C e w \<noteq> None"
    and "ofc_handle_get_wait_set C e (core w) = h"
  shows "(\<exists>v s. ofc_event_set_impl C e w = Some v \<and> sched_step ms (view_of C h p w) s \<and>
      ss_flag s e \<and> ss_set s t = Some e \<and> sched_own ms s (view_of C h p v)) \<and>
    (\<exists>v. ofc_event_reset_impl C e w = Some v \<and> sched_step ms (view_of C h p w) (view_of C h p v)) \<and>
    (\<exists>v. ofc_waitset_wake_impl C h w = Some v \<and> sched_step ms (view_of C h p w) (view_of C h p v))"
proof (intro conjI)
  from assms(1) obtain k q where l: "handle_laws C" "ws_pipe C h w = Some k" "pipes w k = Some q"
    by (rule waitableE)
  have live: "deref C e (core w) \<noteq> None" "h \<noteq> OFC_HANDLE_NULL"
    using assms(3) ws_pipe_live [OF l(2)] handle_lawsD(6) [OF l(1)]
    by (cases "deref C e (core w)"; auto simp: ev_at_def)+
  have sig: "\<exists>v. ofc_waitset_signal_impl C h x w = Some v" for x
    using ws_queue.notify_law [of C h w x] l by auto
  then obtain u where u: "ofc_waitset_signal_impl C h e w = Some u" by blast
  let ?v = "ev_write C e True u" and ?x = "view_of C h p w"
  let ?s = "?x\<lparr>ss_flag := (ss_flag ?x)(e := True), ss_set := (ss_set ?x)(t \<mapsto> e)\<rparr>"
  have set: "ofc_event_set_impl C e w = Some ?v"
    using u live assms(4) by (auto simp: event_set_eq [OF assms(2)] Let_def)
  have "ev_at C e u = ev_at C e w"
    using signal_refills [OF l u] by (auto simp: refilled_def ev_at_def)
  then have "view_of C h p ?v = notify_pipe e (?s\<lparr>ss_set := (ss_set ?s)(t := None)\<rparr>)"
    using assms(3) view_signalled [OF l u, of p] view_write [OF l(1), of e u h p True]
    by (simp add: notify_pipe_def view_of_def fun_upd_idem)
  then have "sched_own ms ?s (view_of C h p ?v)"
    using sched_own.notify [of ?s t e ms] by simp
  moreover have "sched_step ms ?x ?s" by (rule sched_step.raise) (simp add: view_of_def)
  ultimately show "\<exists>v s. ofc_event_set_impl C e w = Some v \<and> sched_step ms ?x s \<and>
      ss_flag s e \<and> ss_set s t = Some e \<and> sched_own ms s (view_of C h p v)"
    using set by (intro exI [of _ ?v] exI [of _ ?s]) simp
  show "\<exists>v. ofc_event_reset_impl C e w = Some v \<and> sched_step ms ?x (view_of C h p v)"
    using event_reset_eq [OF assms(2)] view_write [OF l(1) assms(3), of h p False]
      sched_step.lower [of ms ?x e] by simp
  obtain v where v: "ofc_waitset_signal_impl C h OFC_HANDLE_NULL w = Some v" using sig by blast
  then show "\<exists>v. ofc_waitset_wake_impl C h w = Some v \<and> sched_step ms ?x (view_of C h p v)"
    using view_signalled [OF l v, of p] sched_step.wake [of ms ?x] by (simp add: ofc_waitset_wake_impl_def)
qed

theorem setter_steps_match_witness:
  "\<exists>v s. ofc_event_set_impl demo_api (Handle 5) (demo_sched False []) = Some v \<and>
     sched_step [Handle 5] (view_of demo_api (Handle 7) Sched_poll (demo_sched False [])) s \<and>
     sched_own [Handle 5] s (view_of demo_api (Handle 7) Sched_poll v)"
proof -
  have "ofc_handle_get_wait_set demo_api (Handle 5) (core (demo_sched False [])) = Handle 7" by simp
  from setter_steps_match [OF sched_waitable sched_usable _ this, of "[Handle 5]" Sched_poll 1]
  show ?thesis by (auto simp: sched_ev)
qed

end
