(* ===== verification/Waitset_Invariant.thy ===== *)
theory Waitset_Invariant
  imports Waitset_Correct Event_Correct
begin

text \<open>
  Well-formedness of the scheduler's world, kept by the operations that neither create nor
  destroy an object: those of events (\<open>src/event_darwin.c\<close>), of wait sets (\<open>src/waitset_darwin.c\<close>) and
  the event side of sockets (\<open>src/socket_darwin.c\<close>). A set that could be waited on still can.
\<close>

section \<open>Worlds of the same shape\<close>

text \<open>What well-formedness depends on: handles, queues, which cells are there, free mutexes, pipes.\<close>

definition alike :: "'h core_api \<Rightarrow> 'h world \<Rightarrow> 'h world \<Rightarrow> bool" where
  "alike C w v \<longleftrightarrow> core_reads C (core v) = core_reads C (core w) \<and> ws_cells v = ws_cells w \<and>
     (\<forall>h. ev_usable C h v = ev_usable C h w) \<and> (\<forall>h. sk_usable C h v = sk_usable C h w) \<and>
     (\<forall>h. ws_pipe C h v = ws_pipe C h w)"

lemma alike_refl [simp]: "alike C w w"
  by (simp add: alike_def)

lemma alike_trans [trans]: "alike C u v \<Longrightarrow> alike C v w \<Longrightarrow> alike C u w"
  by (simp add: alike_def)

lemma alike_members:
  assumes "alike C w v"
  shows "members C h v = members C h w"
proof -
  have "core_reads C (core v) = core_reads C (core w)" "ws_cells v = ws_cells w"
    using assms by (simp_all add: alike_def)
  then show ?thesis using core_reads_eqD(1,3) [of C "core v" "core w"]
    by (simp add: members_def split: option.split)
qed

lemma alike_waitable:
  assumes "alike C w v" and "waitable C Q h w"
  shows "waitable C Q h v"
proof -
  have r: "core_reads C (core v) = core_reads C (core w)"
    and u: "ev_usable C x v = ev_usable C x w" "sk_usable C x v = sk_usable C x w"
      "ws_pipe C x v = ws_pipe C x w" for x
    using assms(1) by (simp_all add: alike_def)
  have "scannable C v x = scannable C w x" for x
    using core_reads_eqD(2,12,13) [OF r] by (simp add: scannable_def u cong: handle_type.case_cong)
  then show ?thesis using assms(2) by (simp add: waitable_def u alike_members [OF assms(1)])
qed

lemma alike_cells:
  assumes "core v = core w" and "ws_cells v = ws_cells w" and "dws_cells v = dws_cells w"
    and "\<And>D. nb_pipe D v = nb_pipe D w" and "ev_cells v = ev_cells w" and "sk_cells v = sk_cells w"
  shows "alike C w v"
  using assms
  by (simp add: alike_def ws_pipe_def ws_impl_def ev_usable_def ev_at_def sk_usable_def sk_at_def)

section \<open>The operations keep the shape\<close>

lemma write_handle_alike: "write_handle f e w = Some v \<Longrightarrow> alike C w v"
  by (rule alike_cells)
    (auto simp: write_handle_def nb_pipe_def split: option.splits if_splits Option.bind_splits)

lemma read_handle_alike: "read_handle f w = Some (x, v) \<Longrightarrow> alike C w v"
  by (rule alike_cells)
    (auto simp: read_handle_def nb_pipe_def split: option.splits if_splits list.splits Option.bind_splits)

lemma write_alike: "alike C w (ev_write C h b w)"
  by (auto simp: alike_def ws_pipe_write frame ev_usable_write sk_usable_def sk_at_def)

lemma sk_write_alike:
  assumes "handle_laws C"
  shows "alike C w (sk_write C h f w)"
proof -
  have "ws_pipe C x (sk_write C h f w) = ws_pipe C x w" for x
    by (simp add: ws_pipe_def ws_impl_def nb_pipe_def frame)
  moreover have "ev_usable C x (sk_write C h f w) = ev_usable C x w" for x
    by (simp add: ev_usable_def ev_at_def frame)
  ultimately show ?thesis
    using assms by (auto simp: alike_def frame sk_usable_def sk_at_write split: if_splits)
qed

lemma signal_alike:
  assumes "handle_laws C" and "ofc_waitset_signal_impl C g e w = Some v"
  shows "alike C w v"
proof (cases "deref C g (core w)")
  case None
  with assms show ?thesis by (simp add: signal_invalid)
next
  case (Some a)
  then obtain f where "write_handle f e w = Some v"
    using assms by (auto simp: ofc_waitset_signal_impl_def lock_h_eq unlock_h_def unlock_after_lock
        elim!: bind_SomeE)
  then show ?thesis by (rule write_handle_alike)
qed

lemma set_app_alike:
  assumes "handle_laws C"
  shows "alike C w (set_app C h a ws w)"
proof -
  have r: "core_reads C (ofc_handle_set_app C h a ws (core w)) = core_reads C (core w)"
    by (rule handle_lawsD(8) [OF assms])
  then show ?thesis using core_reads_eqD(1) [OF r]
    by (simp add: alike_def set_app_def ev_usable_def ev_at_def sk_usable_def sk_at_def
        ws_pipe_def ws_impl_def nb_pipe_def)
qed

lemma event_set_alike:
  assumes "handle_laws C" and "ofc_event_set_impl C h w = Some v"
  shows "alike C w v"
proof -
  let ?ws = "ofc_handle_get_wait_set C h (core w)"
  consider "v = w" | u where "v = ev_write C h True u"
      "u = w \<or> ofc_waitset_signal_impl C ?ws h w = Some u"
    using assms(2) event_set_eq [OF event_returns(1) [OF assms]]
    by (auto simp: Let_def split: if_splits)
  then show ?thesis
  proof cases
    case 2
    then have "alike C w u" using signal_alike [OF assms(1)] by auto
    also have "alike C u v" using 2 write_alike by simp
    finally show ?thesis .
  qed simp
qed

lemma event_reset_alike:
  assumes "handle_laws C" and "ofc_event_reset_impl C h w = Some v"
  shows "alike C w v"
  using assms(2) event_reset_eq [OF event_returns(2) [OF assms]] write_alike by auto

lemma event_test_alike:
  assumes "handle_laws C" and "ofc_event_test_impl C h w = Some (b, v)"
  shows "alike C w v"
  using assms(2) event_test_eq [OF event_returns(3) [OF assms]] by auto

lemma event_wait_alike:
  assumes "handle_laws C" and "ofc_event_wait_impl C (\<lambda>_. None) h w = Some v"
  shows "alike C w v"
  using assms(2) event_wait_eq [OF event_returns(4) [OF assms]] write_alike
  by (auto split: option.splits if_splits)

lemma consumed_alike: "alike C w (consumed C h w)"
  by (simp add: consumed_def write_alike)

lemma consume_alike:
  assumes "handle_laws C" and "consume_event (event_impl C) h w = Some (b, v)"
  shows "alike C w v"
proof -
  have "ev_usable C h w"
    using assms by (auto simp: consume_event_def event_impl_def elim!: bind_SomeE intro: event_returns(3))
  then show ?thesis using assms(2) consumed_alike by (auto simp: consume_eq split: if_splits)
qed

lemma PollEvent_alike:
  assumes "handle_laws C" and "PollEvent (event_impl C) f es w = Some r"
  shows "alike C w (snd r)"
proof -
  have "E = event_impl C \<longrightarrow> alike C w (snd r)" if "PollEvent E f es w = Some r" for E f es w r
  proof (rule PollEvent.raw_induct [where P = "\<lambda>E f es w r. E = event_impl C \<longrightarrow> alike C w (snd r)", OF _ that],
      goal_cases)
    case (1 rec E f es w y)
    show ?case
    proof
      assume E: "E = event_impl C"
      from 1(2) obtain x u where x: "read_handle f w = Some (x, u)"
        by (cases "read_handle f w") auto
      have wu: "alike C w u" by (rule read_handle_alike [OF x])
      have rec: "alike C w (snd y)" if "rec E f es v = Some y" and "alike C w v" for v
        using 1(1) [OF that(1)] E alike_trans [OF that(2)] by simp
      show "alike C w (snd y)"
      proof (cases "consume_event E (the x) u")
        case None
        then show ?thesis using 1(2) x wu rec by (auto split: option.splits if_splits)
      next
        case (Some c)
        then have "alike C w (snd c)"
          using consume_alike [OF assms(1), of "the x" u "fst c" "snd c"] E alike_trans [OF wu] by simp
        then show ?thesis using 1(2) x wu rec Some by (auto split: option.splits if_splits)
      qed
    qed
  qed
  with assms(2) show ?thesis by blast
qed

lemma waitset_add_alike:
  assumes "handle_laws C" and "ofc_waitset_add_impl C (event_impl C) ws app ev w = Some v"
  shows "alike C w v"
proof -
  have sig: "alike C u v" if "signal_if_set C (event_impl C) ws e u = Some v" for e u
  proof -
    from that obtain t x where "ofc_event_test_impl C e u = Some (t, x)"
      "v = x \<or> ofc_waitset_signal_impl C ws e x = Some v"
      by (auto simp: signal_if_set_def event_impl_def split: if_splits elim!: bind_SomeE)
    then show ?thesis
      using event_test_alike [OF assms(1)] signal_alike [OF assms(1)] alike_trans by metis
  qed
  have "w = v \<or> (\<exists>h a b e. v = set_app C h a b w \<or> ofc_waitset_signal_impl C ws e (set_app C h a b w) = Some v \<or>
      signal_if_set C (event_impl C) ws e (set_app C h a b w) = Some v)"
    using assms(2) unfolding ofc_waitset_add_impl_def
    by (cases "ofc_handle_get_type C ev (core w)") (auto simp: Let_def split: if_splits)
  then show ?thesis
    using sig signal_alike [OF assms(1)] set_app_alike [OF assms(1)] alike_trans alike_refl by metis
qed

lemma set_assoc_alike:
  "handle_laws C \<Longrightarrow> alike C w (ofc_waitset_set_assoc_impl C ev app ws w)"
  unfolding ofc_waitset_set_assoc_impl_def
  by (cases "ofc_handle_get_type C ev (core w)") (simp_all add: set_app_alike)

lemma purged_alike: "alike C w (purged C h w)"
proof (cases "ws_pipe C h w")
  case (Some k)
  show ?thesis
  proof (cases "pipes w k")
    case (Some q)
    have "nb_pipe D (purged C h w) = nb_pipe D w" for D
      using \<open>ws_pipe C h w = Some k\<close> Some by (auto simp: purged_def nb_pipe_def split: Option.bind_split)
    then show ?thesis
      using \<open>ws_pipe C h w = Some k\<close> Some by (intro alike_cells) (simp_all add: purged_def)
  qed (simp add: purged_def \<open>ws_pipe C h w = Some k\<close>)
qed (simp add: purged_def)

lemma set_event_alike:
  assumes "handle_laws C" and "ofc_socket_impl_set_event C h b w = Some v"
  shows "alike C w v"
  using assms set_event_eq [OF returns_usable(2) [OF assms]] sk_write_alike by auto

lemma enable_alike:
  assumes "handle_laws C" and "ofc_socket_impl_enable C B h t w = Some (r, v)"
  shows "alike C w v"
  using assms enable_eq [OF returns_usable(1) [OF assms]] sk_write_alike by auto

lemma await_poll_alike:
  assumes "handle_laws C" and "await_poll C Q (event_impl C) poll d st w = Some (r, v)"
    and others: "\<And>ps t n ps' u. poll ps t w = Some (n, ps', u) \<Longrightarrow> alike C w u"
  shows "alike C w v"
proof -
  from assms(2) obtain n ps u where p: "poll (darwin_handle_list st) (leastWait st) w = Some (n, ps, u)"
    by (auto simp: await_poll_def elim!: bind_SomeE)
  have "alike C u v" if "ofc_socket_impl_set_event C h b u = Some v" for h b v
    by (rule set_event_alike [OF assms(1) that])
  then have "alike C u v"
    using assms(2) p PollEvent_alike [OF assms(1)]
    by (fastforce simp: await_poll_def Let_def split: if_splits elim!: bind_SomeE)
  with others [OF p] show ?thesis by (rule alike_trans)
qed

lemma wait_alike:
  assumes "waitable C Q h w"
    and "ofc_waitset_wait_impl C Q (event_impl C) poll h w = Some (r, v)"
    and others: "\<And>ps t u n ps' u'. alike C w u \<Longrightarrow> poll ps t u = Some (n, ps', u') \<Longrightarrow> alike C u u'"
  shows "alike C w v"
proof -
  from assms(1) obtain D d where l: "handle_laws C" "ws_addr C h w = Some d" by (rule waitableE)
  let ?u = "purged C h w"
  have "alike C ?u (taken C ?u x)" for x
    by (simp add: taken_def consumed_alike split: handle_type.split)
  moreover have "alike C ?u v" if "await_poll C Q (event_impl C) poll d (scan_tables C Q h w) ?u = Some (r, v)"
    using await_poll_alike [OF l(1) that] others purged_alike by blast
  ultimately have "alike C ?u v"
    using assms(2) by (auto simp: wait_scan [OF assms(1) l(2)] split: option.splits)
  with purged_alike show ?thesis by (rule alike_trans)
qed

section \<open>Sequences of operations\<close>

text \<open>
  One operation, on any event, set or socket, of those that neither create nor destroy one. The wait is the one on \<open>h\<close>; while it is in \<open>poll\<close>
  other threads run operations too, so \<open>poll\<close> may return any world that steps lead to.
\<close>

inductive world_step :: "'h core_api \<Rightarrow> 'q queue_api \<Rightarrow> handle \<Rightarrow> 'h world \<Rightarrow> 'h world \<Rightarrow> bool"
  for C Q h where
  set_event: "ofc_event_set_impl C e w = Some v \<Longrightarrow> world_step C Q h w v"
| reset_event: "ofc_event_reset_impl C e w = Some v \<Longrightarrow> world_step C Q h w v"
| test_event: "ofc_event_test_impl C e w = Some (b, v) \<Longrightarrow> world_step C Q h w v"
| wait_event: "ofc_event_wait_impl C (\<lambda>_. None) e w = Some v \<Longrightarrow> world_step C Q h w v"
| signal: "ofc_waitset_signal_impl C s e w = Some v \<Longrightarrow> world_step C Q h w v"
| wake: "ofc_waitset_wake_impl C s w = Some v \<Longrightarrow> world_step C Q h w v"
| add: "ofc_waitset_add_impl C (event_impl C) s app e w = Some v \<Longrightarrow> world_step C Q h w v"
| assoc: "world_step C Q h w (ofc_waitset_set_assoc_impl C e app s w)"
| enable: "ofc_socket_impl_enable C B s t w = Some (r, v) \<Longrightarrow> world_step C Q h w v"
| wait: "ofc_waitset_wait_impl C Q (event_impl C) poll h w = Some (r, v) \<Longrightarrow>
     (\<And>ps t u n ps' u'. poll ps t u = Some (n, ps', u') \<Longrightarrow> (world_step C Q h)\<^sup>*\<^sup>* u u') \<Longrightarrow>
     world_step C Q h w v"

lemma steps_alike:
  assumes "(\<lambda>u v. R u v \<and> (waitable C Q h u \<longrightarrow> alike C u v))\<^sup>*\<^sup>* w v" and "waitable C Q h w"
  shows "alike C w v"
  using assms(1)
proof (induction rule: rtranclp_induct)
  case (step u v)
  then have "waitable C Q h u" using alike_waitable assms(2) by blast
  with step show ?case using alike_trans by blast
qed simp

lemma step_alike:
  assumes "world_step C Q h w v" and "waitable C Q h w"
  shows "alike C w v"
proof -
  have "waitable C Q h w \<longrightarrow> alike C w v"
    using assms(1)
  proof (induction rule: world_step.induct)
    case (wait poll w r v)
    show ?case
    proof
      assume w: "waitable C Q h w"
      show "alike C w v"
      proof (rule wait_alike [OF w wait(1)])
        fix ps t u n ps' u'
        assume "alike C w u" and "poll ps t u = Some (n, ps', u')"
        then show "alike C u u'" using steps_alike [OF wait(2)] alike_waitable w by blast
      qed
    qed
  qed (auto simp: waitable_def ofc_waitset_wake_impl_def intro: event_set_alike event_reset_alike
      event_test_alike event_wait_alike signal_alike waitset_add_alike set_assoc_alike enable_alike)
  with assms(2) show ?thesis by blast
qed

text \<open>
  C10: A set the scheduler can wait on stays one as long as nothing is created or destroyed. After any
  sequence of setting, resetting, testing and waiting for events, signalling and waking sets, adding
  and associating handles, enabling socket events, and waits on the set, during which other threads
  run such operations too, the set still has its pipe, the same members in the same order, and
  every member still leads to its cell; no event has become unusable, so no operation left a mutex
  locked.
\<close>

theorem waitable_kept:
  assumes "(world_step C Q h)\<^sup>*\<^sup>* w v" and "waitable C Q h w"
  shows "waitable C Q h v \<and> members C h v = members C h w \<and>
    (\<forall>e. ev_usable C e v = ev_usable C e w) \<and> (\<forall>s. sk_usable C s v = sk_usable C s w)"
proof -
  have "alike C w v"
    using assms(1)
  proof (induction rule: rtranclp_induct)
    case (step u v)
    then have "alike C u v" using step_alike alike_waitable assms(2) by blast
    with step show ?case using alike_trans by blast
  qed simp
  then show ?thesis
    using alike_waitable [OF _ assms(2)] alike_members [of C w v h] by (simp add: alike_def)
qed

theorem waitable_kept_witness:
  "waitable demo_api demo_fifo (Handle 7) (demo_sched False []) \<and>
   members demo_api (Handle 7) (demo_sched False []) = [Handle 5, Handle 6] \<and>
   (\<forall>e. ev_usable demo_api e (demo_sched False []) = ev_usable demo_api e (demo_sched False [Handle 5])) \<and>
   (\<forall>s. sk_usable demo_api s (demo_sched False []) = sk_usable demo_api s (demo_sched False [Handle 5]))"
proof -
  let ?step = "world_step demo_api demo_fifo (Handle 7)"
  have "taken demo_api (purged demo_api (Handle 7) (demo_sched True [Handle 5])) (Handle 5) =
      demo_sched False []"
    by (simp add: sched_purged taken_def consumed_def ev_kind_def sched_ev sched_write)
  then have "?step (demo_sched True [Handle 5]) (demo_sched False [])"
    using wait_scan [OF sched_waitable sched_addr, of "\<lambda>_ _ _. None" True "[Handle 5]"]
    by (intro world_step.wait [where poll = "\<lambda>_ _ _. None" and r = "Handle 5"])
      (simp_all add: sched_members sched_ready)
  moreover have "?step (demo_sched False []) (demo_sched True [Handle 5])"
    by (rule world_step.set_event [OF sched_set])
  moreover have "?step (demo_sched False [Handle 5]) (demo_sched False [])"
  proof (rule world_step.wait [where poll = "\<lambda>_ _ v. Some (0, [], v)"])
    show "ofc_waitset_wait_impl demo_api demo_fifo (event_impl demo_api) (\<lambda>_ _ v. Some (0, [], v))
        (Handle 7) (demo_sched False [Handle 5]) =
        Some (timer_event (scan_tables demo_api demo_fifo (Handle 7) (demo_sched False [Handle 5])),
              demo_sched False [])"
      using wait_blocked [OF sched_waitable [of False "[Handle 5]"] _ sched_addr]
      by (simp add: none_ready_def sched_members sched_ready await_poll_def sched_purged)
  qed simp
  ultimately have "?step\<^sup>*\<^sup>* (demo_sched False [Handle 5]) (demo_sched False [])"
    by (meson rtranclp.intros)
  from waitable_kept [OF this sched_waitable] show ?thesis by (simp add: sched_members)
qed

end
