(* ===== verification/Event_Threads.thy ===== *)
theory Event_Threads
  imports Event_Darwin
begin

text \<open>
  Several threads inside the operations of one event (\<open>src/event_darwin.c\<close>). The operations of
  \<open>Event_Darwin\<close> run to their end; here each is cut at the points where another thread can run:
  the two lines that take the mutex, the lines between them and its release, and
  \<open>pthread_cond_wait\<close>, which releases the mutex, sleeps until a broadcast (or wakes on its own)
  and queues for the mutex again.
\<close>

section \<open>The system\<close>

datatype pc =
    Idle
  | Set_lock | Set_raise | Set_broadcast | Set_notify | Set_unlock
  | Reset_lock | Reset_lower | Reset_unlock
  | Wait_lock | Wait_test | Wait_blocked | Wait_relock | Wait_consume | Wait_unlock
  | Test_lock | Test_read | Test_unlock

record ev_sys =
  es_kind :: event_type
  es_flag :: bool
  es_owner :: "nat option" \<comment> \<open>who holds \<open>pthread_mutex\<close>\<close>
  es_pc :: "nat \<Rightarrow> pc"

definition goto :: "nat \<Rightarrow> pc \<Rightarrow> ev_sys \<Rightarrow> ev_sys" where
  "goto t p s = s\<lparr>es_pc := (es_pc s)(t := p)\<rparr>"

text \<open>\<open>pthread_mutex_lock\<close>: goes on when the mutex is free, otherwise the thread cannot move.\<close>

definition acquire :: "nat \<Rightarrow> pc \<Rightarrow> ev_sys \<Rightarrow> ev_sys option" where
  "acquire t p s = (if es_owner s = None then Some (goto t p (s\<lparr>es_owner := Some t\<rparr>)) else None)"

definition release :: "nat \<Rightarrow> pc \<Rightarrow> ev_sys \<Rightarrow> ev_sys" where
  "release t p s = goto t p (s\<lparr>es_owner := None\<rparr>)"

text \<open>\<open>pthread_cond_broadcast\<close> moves every sleeper to the queue for the mutex.\<close>

definition broadcast :: "ev_sys \<Rightarrow> ev_sys" where
  "broadcast s = s\<lparr>es_pc := (\<lambda>u. if es_pc s u = Wait_blocked then Wait_relock else es_pc s u)\<rparr>"

text \<open>What thread \<open>t\<close> does next; \<open>None\<close> when it cannot move.\<close>

definition ev_next :: "nat \<Rightarrow> ev_sys \<Rightarrow> ev_sys option" where
  "ev_next t s =
     (case es_pc s t of
        Idle \<Rightarrow> None
      | Set_lock \<Rightarrow> acquire t Set_raise s
      | Set_raise \<Rightarrow> Some (goto t Set_broadcast (s\<lparr>es_flag := True\<rparr>))
      | Set_broadcast \<Rightarrow> Some (goto t Set_notify (broadcast s))
      | Set_notify \<Rightarrow> Some (goto t Set_unlock s)
      | Set_unlock \<Rightarrow> Some (release t Idle s)
      | Reset_lock \<Rightarrow> acquire t Reset_lower s
      | Reset_lower \<Rightarrow> Some (goto t Reset_unlock (s\<lparr>es_flag := False\<rparr>))
      | Reset_unlock \<Rightarrow> Some (release t Idle s)
      | Wait_lock \<Rightarrow> acquire t Wait_test s
      | Wait_test \<Rightarrow> Some (if es_flag s then goto t Wait_consume s else release t Wait_blocked s)
      | Wait_blocked \<Rightarrow> None
      | Wait_relock \<Rightarrow> acquire t Wait_consume s
      | Wait_consume \<Rightarrow>
          Some (goto t Wait_unlock (if es_kind s = OFC_EVENT_AUTO then s\<lparr>es_flag := False\<rparr> else s))
      | Wait_unlock \<Rightarrow> Some (release t Idle s)
      | Test_lock \<Rightarrow> acquire t Test_read s
      | Test_read \<Rightarrow> Some (goto t Test_unlock s)
      | Test_unlock \<Rightarrow> Some (release t Idle s))"

text \<open>
  A step of the system: a thread goes on, an idle thread calls an operation, or a sleeper wakes
  without a broadcast, as POSIX allows.
\<close>

inductive ev_step :: "ev_sys \<Rightarrow> ev_sys \<Rightarrow> bool" where
  run: "ev_next t s = Some s' \<Longrightarrow> ev_step s s'"
| enter: "es_pc s t = Idle \<Longrightarrow> p \<in> {Set_lock, Reset_lock, Wait_lock, Test_lock} \<Longrightarrow> ev_step s (goto t p s)"
| spurious: "es_pc s t = Wait_blocked \<Longrightarrow> ev_step s (goto t Wait_relock s)"

inductive_cases ev_stepE: "ev_step s s'"

definition ev_start :: "event_type \<Rightarrow> ev_sys" where
  "ev_start k = \<lparr>es_kind = k, es_flag = False, es_owner = None, es_pc = (\<lambda>_. Idle)\<rparr>"

inductive ev_reach :: "event_type \<Rightarrow> ev_sys \<Rightarrow> bool" for k where
  start: "ev_reach k (ev_start k)"
| step: "ev_reach k s \<Longrightarrow> ev_step s s' \<Longrightarrow> ev_reach k s'"

section \<open>Invariants\<close>

fun inside :: "pc \<Rightarrow> bool" where
  "inside Idle = False"
| "inside Set_lock = False"
| "inside Reset_lock = False"
| "inside Wait_lock = False"
| "inside Test_lock = False"
| "inside Wait_blocked = False"
| "inside Wait_relock = False"
| "inside _ = True"

text \<open>Exactly the owner of the mutex is between its lock and its unlock.\<close>

definition exclusive :: "ev_sys \<Rightarrow> bool" where
  "exclusive s \<longleftrightarrow> (\<forall>t. inside (es_pc s t) \<longleftrightarrow> es_owner s = Some t)"

text \<open>A thread sleeps on a raised flag only while a setter is about to broadcast.\<close>

definition wakeup_kept :: "ev_sys \<Rightarrow> bool" where
  "wakeup_kept s \<longleftrightarrow> (es_flag s \<longrightarrow> (\<exists>t. es_pc s t = Wait_blocked) \<longrightarrow> (\<exists>u. es_pc s u = Set_broadcast))"

lemmas ev_moves = goto_def acquire_def release_def broadcast_def

lemma exclusiveD: "exclusive s \<Longrightarrow> inside (es_pc s t) \<longleftrightarrow> es_owner s = Some t"
  by (simp add: exclusive_def)

lemma exclusive_next:
  assumes "exclusive s" and "ev_next t s = Some s'"
  shows "exclusive s'"
  unfolding exclusive_def
proof
  fix u
  show "inside (es_pc s' u) \<longleftrightarrow> es_owner s' = Some u"
    using assms(2) exclusiveD [OF assms(1), of u] exclusiveD [OF assms(1), of t]
    by (cases "u = t"; cases "es_pc s t") (auto simp: ev_next_def ev_moves split: if_splits)
qed

lemma exclusive_goto:
  "exclusive s \<Longrightarrow> \<not> inside (es_pc s t) \<Longrightarrow> \<not> inside p \<Longrightarrow> exclusive (goto t p s)"
  by (simp add: exclusive_def goto_def)

lemma wakeup_goto:
  "wakeup_kept s \<Longrightarrow> es_pc s t \<noteq> Set_broadcast \<Longrightarrow> p \<noteq> Wait_blocked \<Longrightarrow> wakeup_kept (goto t p s)"
  by (simp add: wakeup_kept_def goto_def) metis

lemma exclusive_step:
  assumes "ev_step s s'" and "exclusive s"
  shows "exclusive s'"
  using assms(1)
proof (cases rule: ev_step.cases)
  case (run t)
  then show ?thesis using exclusive_next assms(2) by blast
next
  case (enter t p)
  then show ?thesis using assms(2) by (auto intro!: exclusive_goto)
next
  case (spurious t)
  then show ?thesis using assms(2) by (auto intro!: exclusive_goto)
qed

text \<open>Two threads are never inside together.\<close>

lemma inside_unique: "exclusive s \<Longrightarrow> inside (es_pc s t) \<Longrightarrow> inside (es_pc s u) \<Longrightarrow> u = t"
  by (simp add: exclusiveD)

lemma wakeup_next:
  assumes "exclusive s" and "wakeup_kept s" and "ev_next t s = Some s'"
  shows "wakeup_kept s'"
  unfolding wakeup_kept_def
proof (intro impI, elim exE)
  fix v
  assume flag: "es_flag s'" and v: "es_pc s' v = Wait_blocked"
  show "\<exists>u. es_pc s' u = Set_broadcast"
  proof (cases "es_pc s t = Set_raise")
    case True
    then show ?thesis using assms(3) by (auto simp: ev_next_def ev_moves)
  next
    case False
    then have old: "es_flag s" "es_pc s v = Wait_blocked" "es_pc s t \<noteq> Set_broadcast"
      using flag v assms(3)
      by (cases "es_pc s t"; auto simp: ev_next_def ev_moves split: if_splits)+
    then obtain u where u: "es_pc s u = Set_broadcast" using assms(2) by (auto simp: wakeup_kept_def)
    then have "es_pc s' u = Set_broadcast"
      using assms(3) old(3) by (cases "es_pc s t"; auto simp: ev_next_def ev_moves split: if_splits)
    then show ?thesis by blast
  qed
qed

lemma wakeup_step:
  assumes "ev_step s s'" and "exclusive s" and "wakeup_kept s"
  shows "wakeup_kept s'"
  using assms(1)
proof (cases rule: ev_step.cases)
  case (run t)
  then show ?thesis using wakeup_next assms(2,3) by blast
next
  case (enter t p)
  then show ?thesis using assms(3) by (auto intro!: wakeup_goto)
next
  case (spurious t)
  then show ?thesis using assms(3) by (auto intro!: wakeup_goto)
qed

lemma ev_reach_invariants: "ev_reach k s \<Longrightarrow> exclusive s \<and> wakeup_kept s \<and> es_kind s = k"
proof (induction rule: ev_reach.induct)
  case start
  show ?case by (simp add: exclusive_def wakeup_kept_def ev_start_def)
next
  case (step s s')
  moreover have "es_kind s' = es_kind s"
    using step(2) by (cases rule: ev_step.cases)
      (auto simp: ev_next_def ev_moves split: pc.splits if_splits)
  ultimately show ?case using exclusive_step wakeup_step by blast
qed

section \<open>Runs of chosen threads\<close>

text \<open>The steps of the threads in the order given; \<open>None\<close> when one of them cannot move.\<close>

fun ev_run :: "nat list \<Rightarrow> ev_sys \<Rightarrow> ev_sys option" where
  "ev_run [] s = Some s"
| "ev_run (t # ts) s = Option.bind (ev_next t s) (ev_run ts)"

lemma ev_run_reach: "ev_reach k s \<Longrightarrow> ev_run ts s = Some s' \<Longrightarrow> ev_reach k s'"
  by (induction ts arbitrary: s) (auto elim!: bind_SomeE dest: ev_reach.step [OF _ ev_step.run])

section \<open>What the threads of an event can rely on\<close>

text \<open>
  C4: Whatever the interleaving, at most one thread is between the lock and the unlock of the
  event's mutex, and no wake-up is lost: while the event is raised a thread sleeps in
  \<open>ofc_event_wait_impl\<close> only as long as the setter has its \<open>pthread_cond_broadcast\<close> still to do.
\<close>

theorem event_threads_safe:
  assumes "ev_reach k s"
  shows "(\<forall>t u. inside (es_pc s t) \<and> inside (es_pc s u) \<longrightarrow> t = u) \<and>
    (es_flag s \<and> (\<exists>t. es_pc s t = Wait_blocked) \<longrightarrow> (\<exists>u. es_pc s u = Set_broadcast))"
  using ev_reach_invariants [OF assms] inside_unique by (auto simp: wakeup_kept_def)

text \<open>Thread 2 sleeps, thread 3 has called set and is past the write of the flag.\<close>

definition asleep_and_setting :: ev_sys where
  "asleep_and_setting = \<lparr>es_kind = OFC_EVENT_AUTO, es_flag = True, es_owner = Some 3,
     es_pc = (\<lambda>_. Idle)(2 := Wait_blocked, 3 := Set_broadcast)\<rparr>"

lemma asleep_and_setting_reach: "ev_reach OFC_EVENT_AUTO asleep_and_setting"
proof -
  let ?s = "goto 3 Set_lock (goto 2 Wait_lock (ev_start OFC_EVENT_AUTO))"
  have "ev_reach OFC_EVENT_AUTO ?s"
    by (intro ev_reach.step [OF _ ev_step.enter] ev_reach.start) (simp_all add: goto_def ev_start_def)
  moreover have "ev_run [2, 2, 3, 3] ?s = Some asleep_and_setting"
    by (simp add: ev_next_def ev_moves ev_start_def asleep_and_setting_def)
  ultimately show ?thesis by (rule ev_run_reach)
qed

theorem event_threads_safe_witness:
  "\<exists>u. es_pc asleep_and_setting u = Set_broadcast"
proof -
  have "es_flag asleep_and_setting \<and> (\<exists>t. es_pc asleep_and_setting t = Wait_blocked)"
    by (simp add: asleep_and_setting_def exI [of _ 2])
  then show ?thesis using event_threads_safe [OF asleep_and_setting_reach] by blast
qed

text \<open>
  C17: The event never locks up: as long as some thread is inside an operation and not asleep on the
  condition, some thread can take its next step.
\<close>

theorem event_threads_progress:
  assumes "ev_reach k s" and "es_pc s t \<noteq> Idle" and "es_pc s t \<noteq> Wait_blocked"
  shows "\<exists>u s'. ev_next u s = Some s'"
proof (cases "es_owner s")
  case None
  then have "\<not> inside (es_pc s t)" using ev_reach_invariants [OF assms(1)] by (simp add: exclusiveD)
  then have "ev_next t s \<noteq> None"
    using None assms(2,3) by (cases "es_pc s t") (simp_all add: ev_next_def acquire_def)
  then show ?thesis by blast
next
  case (Some u)
  then have "inside (es_pc s u)" using ev_reach_invariants [OF assms(1)] by (simp add: exclusiveD)
  then have "ev_next u s \<noteq> None" by (cases "es_pc s u") (simp_all add: ev_next_def)
  then show ?thesis by blast
qed

theorem event_threads_progress_witness: "\<exists>u s'. ev_next u asleep_and_setting = Some s'"
  by (rule event_threads_progress [OF asleep_and_setting_reach, of 3])
    (simp_all add: asleep_and_setting_def)

text \<open>
  One call of \<open>ofc_event_set_impl\<close> on an \<open>OFC_EVENT_AUTO\<close> event releases more than one waiter: two
  threads asleep in \<open>ofc_event_wait_impl\<close> both return, since the broadcast wakes both and neither
  tests \<open>signalled\<close> again after \<open>pthread_cond_wait\<close>.
\<close>

theorem auto_event_releases_two:
  assumes "es_kind s = OFC_EVENT_AUTO" and "es_owner s = None" and "es_pc s u = Set_lock"
    and "es_pc s t = Wait_blocked" and "es_pc s v = Wait_blocked" and "t \<noteq> v"
  shows "\<exists>s'. ev_run [u, u, u, u, u, t, t, t, v, v, v] s = Some s' \<and>
    es_pc s' t = Idle \<and> es_pc s' v = Idle \<and> \<not> es_flag s'"
proof -
  have "u \<noteq> t" "u \<noteq> v" using assms by auto
  with assms show ?thesis by (simp add: ev_next_def ev_moves)
qed

theorem auto_event_releases_two_witness:
  "\<exists>s'. ev_run [4, 4, 4, 4, 4, 2, 2, 2, 3, 3, 3]
      \<lparr>es_kind = OFC_EVENT_AUTO, es_flag = False, es_owner = None,
       es_pc = (\<lambda>_. Idle)(2 := Wait_blocked, 3 := Wait_blocked, 4 := Set_lock)\<rparr> = Some s' \<and>
     es_pc s' 2 = Idle \<and> es_pc s' 3 = Idle"
  using auto_event_releases_two [of "\<lparr>es_kind = OFC_EVENT_AUTO, es_flag = False, es_owner = None,
       es_pc = (\<lambda>_. Idle)(2 := Wait_blocked, 3 := Wait_blocked, 4 := Set_lock)\<rparr>" 4 2 3] by auto

text \<open>
  \<open>ofc_event_wait_impl\<close> can return although the event has not been raised: the sleep is guarded by
  an \<open>if\<close>, so a wake-up without a broadcast takes the waiter out of the call.
\<close>

theorem wait_returns_unset:
  assumes "ev_reach k s" and "es_owner s = None" and "es_pc s t = Wait_blocked" and "\<not> es_flag s"
  shows "\<exists>s'. ev_reach k s' \<and> ev_run [t, t, t] (goto t Wait_relock s) = Some s' \<and>
    es_pc s' t = Idle \<and> \<not> es_flag s'"
proof -
  have "ev_reach k (goto t Wait_relock s)"
    by (rule ev_reach.step [OF assms(1)]) (rule ev_step.spurious [OF assms(3)])
  moreover have "\<exists>s'. ev_run [t, t, t] (goto t Wait_relock s) = Some s' \<and> es_pc s' t = Idle \<and> \<not> es_flag s'"
    using assms(2-4) by (simp add: ev_next_def ev_moves)
  ultimately show ?thesis using ev_run_reach by blast
qed

definition one_asleep :: ev_sys where
  "one_asleep = \<lparr>es_kind = OFC_EVENT_AUTO, es_flag = False, es_owner = None,
     es_pc = (\<lambda>_. Idle)(2 := Wait_blocked)\<rparr>"

lemma one_asleep_reach: "ev_reach OFC_EVENT_AUTO one_asleep"
proof -
  let ?s = "goto 2 Wait_lock (ev_start OFC_EVENT_AUTO)"
  have "ev_reach OFC_EVENT_AUTO ?s"
    by (intro ev_reach.step [OF _ ev_step.enter] ev_reach.start) (simp_all add: ev_start_def)
  moreover have "ev_run [2, 2] ?s = Some one_asleep"
    by (simp add: ev_next_def ev_moves ev_start_def one_asleep_def)
  ultimately show ?thesis by (rule ev_run_reach)
qed

theorem wait_returns_unset_witness:
  "\<exists>s'. ev_reach OFC_EVENT_AUTO s' \<and> es_pc s' 2 = Idle \<and> \<not> es_flag s'"
  using wait_returns_unset [OF one_asleep_reach, of 2] by (auto simp: one_asleep_def)

end
