(* ===== verification/Event_Steps.thy ===== *)
theory Event_Steps
  imports Event_Correct Event_Threads
begin

text \<open>
  The two models of \<open>src/event_darwin.c\<close> agree: the steps of \<open>Event_Threads\<close>, taken by one thread
  without interruption, do what the operations of \<open>Event_Darwin\<close> do.
\<close>

section \<open>One thread alone\<close>

primrec entry :: "ev_op \<Rightarrow> pc" where
  "entry (Op_set h) = Set_lock"
| "entry (Op_reset h) = Reset_lock"
| "entry (Op_test h) = Test_lock"
| "entry (Op_wait h) = Wait_lock"

text \<open>An event of type \<open>k\<close> with flag \<open>b\<close>, thread \<open>t\<close> at \<open>p\<close> and every other thread idle.\<close>

definition alone :: "nat \<Rightarrow> pc \<Rightarrow> event_type \<times> bool \<Rightarrow> ev_sys" where
  "alone t p kb = \<lparr>es_kind = fst kb, es_flag = snd kb, es_owner = None, es_pc = (\<lambda>_. Idle)(t := p)\<rparr>"

lemma broadcast_nobody: "(\<And>u. es_pc s u \<noteq> Wait_blocked) \<Longrightarrow> broadcast s = s"
  by (simp add: broadcast_def)

lemma run_set: "ev_run (replicate 5 t) (alone t Set_lock (k, b)) = Some (alone t Idle (k, True))"
  by (simp add: alone_def ev_next_def acquire_def release_def goto_def broadcast_nobody numeral_eq_Suc)

lemma run_reset: "ev_run (replicate 3 t) (alone t Reset_lock (k, b)) = Some (alone t Idle (k, False))"
  by (simp add: alone_def ev_next_def ev_moves numeral_eq_Suc)

lemma run_test: "ev_run (replicate 3 t) (alone t Test_lock (k, b)) = Some (alone t Idle (k, b))"
  by (simp add: alone_def ev_next_def ev_moves numeral_eq_Suc)

lemma run_wait:
  "ev_run (replicate 4 t) (alone t Wait_lock (k, True)) = Some (alone t Idle (k, k \<noteq> OFC_EVENT_AUTO))"
  "ev_run (replicate 2 t) (alone t Wait_lock (k, False)) = Some (alone t Wait_blocked (k, False))"
  by (auto simp: alone_def ev_next_def ev_moves numeral_eq_Suc)

text \<open>Against the specification.\<close>

lemma steps_spec:
  assumes "spec_op x fl = Some (r, fl')" and "fl (op_target x) = Some (k, b)"
  shows "fl' (op_target x) \<noteq> None \<and>
    (\<exists>n. ev_run (replicate n t) (alone t (entry x) (k, b)) = Some (alone t Idle (the (fl' (op_target x)))))"
proof (cases x)
  case (Op_set h)
  then show ?thesis using assms run_set [of t k b] by fastforce
next
  case (Op_reset h)
  then show ?thesis using assms run_reset [of t k b] by fastforce
next
  case (Op_test h)
  then show ?thesis using assms run_test [of t k b] by fastforce
next
  case (Op_wait h)
  then have "b" "fl' = (if k = OFC_EVENT_AUTO then fl(h \<mapsto> (k, False)) else fl)"
    using assms by (auto split: if_splits)
  then show ?thesis using Op_wait assms(2) run_wait(1) [of t k] by (cases "k = OFC_EVENT_AUTO") fastforce+
qed

section \<open>Agreement\<close>

text \<open>
  C8: The interleaved model of an event is the code's: for each of set, reset, test and wait on a live
  event, the steps of one undisturbed thread lead from the event as it is to the event as the
  operation leaves it, the mutex free again; where the operation does not return (a wait on an
  event that is not raised) they lead to the sleep on the condition, with the mutex released.
\<close>

theorem event_steps_match:
  assumes "quiet C E w" and "op_target x \<in> E" and "flags_of C w (op_target x) = Some kb"
  shows "case impl_op C x w of
      Some (r, w') \<Rightarrow> \<exists>n kb'. flags_of C w' (op_target x) = Some kb' \<and>
        ev_run (replicate n t) (alone t (entry x) kb) = Some (alone t Idle kb')
    | None \<Rightarrow> \<exists>n. ev_run (replicate n t) (alone t (entry x) kb) = Some (alone t Wait_blocked kb)"
proof -
  obtain k b where kb: "kb = (k, b)" by (cases kb)
  note steps = run_set run_reset run_test run_wait
  note one = impl_op_refines [OF assms(1,2)]
  show ?thesis
  proof (cases "spec_op x (flags_of C w)")
    case None
    then have "impl_op C x w = None" using one by simp
    moreover have "\<exists>h. x = Op_wait h" "b = False" using None assms(3) kb by (cases x; simp split: if_splits)+
    ultimately show ?thesis using run_wait(2) [of t k] by (auto simp: kb)
  next
    case (Some y)
    then obtain r fl w' where y: "y = (r, fl)" "impl_op C x w = Some (r, w')" "flags_of C w' = fl"
      using one by (cases y) auto
    have s: "spec_op x (flags_of C w) = Some (r, fl)" using Some y(1) by simp
    have "\<exists>n kb'. fl (op_target x) = Some kb' \<and>
        ev_run (replicate n t) (alone t (entry x) kb) = Some (alone t Idle kb')"
      using steps_spec [OF s assms(3) [unfolded kb], of t] unfolding kb by force
    then show ?thesis using y by simp
  qed
qed

theorem event_steps_match_witness:
  "\<exists>r w' n kb'. impl_op demo_api (Op_set (Handle 5)) (demo_sched False []) = Some (r, w') \<and>
     flags_of demo_api w' (Handle 5) = Some kb' \<and>
     ev_run (replicate n 1) (alone 1 Set_lock (OFC_EVENT_AUTO, False)) = Some (alone 1 Idle kb')"
proof -
  have at: "flags_of demo_api (demo_sched False []) (Handle 5) = Some (OFC_EVENT_AUTO, False)"
    by (simp add: flags_of_at sched_ev)
  have set: "impl_op demo_api (Op_set (Handle 5)) (demo_sched False []) = Some (True, demo_sched True [Handle 5])"
    by (simp add: sched_set)
  from event_steps_match [OF demo_quiet, of "Op_set (Handle 5)" "(OFC_EVENT_AUTO, False)" 1] at set
  show ?thesis by (auto simp del: impl_op.simps)
qed

end
