(* ===== verification/Time_Darwin.thy ===== *)
theory Time_Darwin
  imports Prelude "HOL-Library.Signed_Division"
begin

text \<open>
  The clock and the calendar (\<open>src/time_darwin.c\<close>). \<open>int\<close> and \<open>long\<close> values are integers,
  with the truncating division of C (\<open>sdiv\<close>, \<open>smod\<close>); every \<open>int\<close> computation that can leave
  its 32 bits goes through \<open>c_int\<close>, and a read outside of \<open>_DAYS_BEFORE_MONTH\<close> is \<open>None\<close>.

  Parameters: what \<open>gettimeofday\<close>, \<open>time\<close>, \<open>localtime\<close> and \<open>getrusage\<close> answer, and the conversions
  of of_core between file times, epoch times and DOS dates.
\<close>

record tm =
  tm_sec :: int
  tm_min :: int
  tm_hour :: int
  tm_mday :: int
  tm_mon :: int
  tm_year :: int

definition c_int :: "int \<Rightarrow> int option" where
  "c_int n = (if - (2 ^ 31) \<le> n \<and> n < 2 ^ 31 then Some n else None)"

definition DAYS_BEFORE_MONTH :: "int list" where
  "DAYS_BEFORE_MONTH = [0, 31, 59, 90, 120, 151, 181, 212, 243, 273, 304, 334]"

definition days_before_month :: "int \<Rightarrow> int option" where
  "days_before_month i = (if 0 \<le> i \<and> i < 12 then Some (DAYS_BEFORE_MONTH ! nat i) else None)"

definition ISLEAP :: "int \<Rightarrow> bool option" where
  "ISLEAP y =
     (if y smod 4 \<noteq> 0 then Some False
      else if y smod 100 \<noteq> 0 then Some True
      else do { z \<leftarrow> c_int (y + 1900); Some (z smod 400 = 0) })"

definition DAYS_IN_YEAR :: "int \<Rightarrow> int option" where
  "DAYS_IN_YEAR y = do { l \<leftarrow> ISLEAP y; Some (if l then 366 else 365) }"

section \<open>Seconds from a date\<close>

text \<open>The loop over the years before \<open>tm_year\<close>.\<close>

function years_loop :: "int \<Rightarrow> int \<Rightarrow> int \<Rightarrow> int option" where
  "years_loop year until days =
     (if year < until then do { d \<leftarrow> DAYS_IN_YEAR year; years_loop (year + 1) until (days + d) }
      else Some days)"
  by pat_completeness auto
termination by (relation "measure (\<lambda>(y, u, d). nat (u - y))") auto

declare years_loop.simps [simp del]

definition ofc_time_make_time :: "tm \<Rightarrow> u32 option" where
  "ofc_time_make_time t = do {
     let tim = (word_of_int (tm_sec t + tm_min t * 60 + tm_hour t * 3600) :: u32);
     m1 \<leftarrow> c_int (tm_mday t - 1);
     before \<leftarrow> days_before_month (tm_mon t);
     days \<leftarrow> c_int (m1 + before);
     days \<leftarrow> (if tm_mon t > 1
              then do { n \<leftarrow> DAYS_IN_YEAR (tm_year t); Some (if n = 366 then days + 1 else days) }
              else Some days);
     days \<leftarrow> (if tm_year t > 70 then years_loop 70 (tm_year t) days else Some days);
     Some (tim + word_of_int (days * 86400))
   }"

section \<open>A date from seconds\<close>

lemma DAYS_IN_YEAR_ge: "DAYS_IN_YEAR y = Some d \<Longrightarrow> 365 \<le> d"
  by (auto simp: DAYS_IN_YEAR_def elim!: bind_SomeE)

text \<open>The loop that takes whole years off \<open>days_in_year\<close>.\<close>

function find_year :: "int \<Rightarrow> int \<Rightarrow> (int \<times> int) option" where
  "find_year days year = do {
     d \<leftarrow> DAYS_IN_YEAR year;
     if days \<ge> d then do { year' \<leftarrow> c_int (year + 1); find_year (days - d) year' }
     else Some (days, year)
   }"
  by pat_completeness auto
termination
  by (relation "measure (\<lambda>(d, y). nat d)") (auto dest: DAYS_IN_YEAR_ge)

declare find_year.simps [simp del]

text \<open>The loop that finds the month; the test of the index comes first, so the read is in bounds.\<close>

function find_month :: "int \<Rightarrow> int \<Rightarrow> int option" where
  "find_month days mon =
     (if mon < 11 then do {
        b \<leftarrow> days_before_month (mon + 1);
        if days \<ge> b then find_month days (mon + 1) else Some mon
      } else Some mon)"
  by pat_completeness auto
termination by (relation "measure (\<lambda>(d, m). nat (11 - m))") auto

declare find_month.simps [simp del]

definition to_int :: "int \<Rightarrow> int" where
  "to_int n = signed_take_bit 31 n"

definition ofc_time_local_time :: "int \<Rightarrow> tm option" where
  "ofc_time_local_time time = do {
     let ticks_in_day = time smod 86400;
     (days, year) \<leftarrow> find_year (time sdiv 86400) 70;
     n \<leftarrow> DAYS_IN_YEAR year;
     (days, mon) \<leftarrow>
       (if n = 366 then do {
          feb \<leftarrow> days_before_month 2;
          if days = feb then Some (days, 1)
          else do {
            let days = (if days > feb then days - 1 else days);
            mon \<leftarrow> find_month days 0;
            Some (days, mon)
          }
        } else do {
          mon \<leftarrow> find_month days 0;
          Some (days, mon)
        });
     before \<leftarrow> days_before_month mon;
     let ticks_in_hour = ticks_in_day smod 3600;
     Some \<lparr>tm_sec = to_int ticks_in_hour smod 60,
           tm_min = to_int ticks_in_hour sdiv 60,
           tm_hour = to_int ticks_in_day sdiv 3600,
           tm_mday = to_int days - before + 1,
           tm_mon = mon,
           tm_year = year\<rparr>
   }"

section \<open>The clock\<close>

text \<open>
  \<open>OFC_MSTIME\<close> is an integer of of_core; \<open>'m\<close> is its width. The value is the bits of the clock in
  milliseconds; of_core decides whether they are read as a signed or an unsigned number.
\<close>

definition ofc_time_get_now_impl :: "int \<Rightarrow> int \<Rightarrow> 'm::len word" where
  "ofc_time_get_now_impl tv_sec tv_usec = word_of_int (tv_sec * 1000 + tv_usec sdiv 1000)"

definition ofc_time_get_file_time_impl :: "(int \<Rightarrow> int \<Rightarrow> 'ft) \<Rightarrow> int \<Rightarrow> 'ft" where
  "ofc_time_get_file_time_impl epoch_time_to_file_time tv_sec = epoch_time_to_file_time tv_sec 0"

text \<open>\<open>tm_gmtoff\<close> of \<open>localtime\<close>; \<open>None\<close> is its null result, which the code does not test for.\<close>

definition ofc_time_get_timezone_impl :: "int option \<Rightarrow> u16 option" where
  "ofc_time_get_timezone_impl gm = do { gmtoff \<leftarrow> gm; Some (word_of_int ((- 1 * gmtoff) sdiv 60)) }"

record rusage =
  utime_sec :: int
  utime_usec :: int
  stime_sec :: int
  stime_usec :: int

definition ofc_get_runtime_impl :: "int \<Rightarrow> rusage \<Rightarrow> 'm::len word" where
  "ofc_get_runtime_impl ret r =
     (if ret = 0
      then word_of_int ((utime_sec r + stime_sec r) * 1000000 + (utime_usec r + stime_usec r))
      else 0)"

section \<open>DOS dates\<close>

text \<open>
  \<open>file_time_to_epoch_time\<close> gives seconds and nanoseconds, \<open>ofc_time_elements_to_dos_date_time\<close>
  packs month, day, year, hour, minute and second, \<open>ofc_dos_date_time_to_elements\<close> unpacks them.
\<close>

definition ofc_file_time_to_dos_date_time_impl ::
  "('ft \<Rightarrow> int \<times> int) \<Rightarrow> (int \<Rightarrow> int \<Rightarrow> int \<Rightarrow> int \<Rightarrow> int \<Rightarrow> int \<Rightarrow> u16 \<times> u16) \<Rightarrow>
   'ft \<Rightarrow> (bool \<times> u16 \<times> u16) option" where
  "ofc_file_time_to_dos_date_time_impl file_time_to_epoch_time elements_to_dos ft = do {
     let (tv_sec, tv_nsec) = file_time_to_epoch_time ft;
     t \<leftarrow> ofc_time_local_time tv_sec;
     year \<leftarrow> c_int (tm_year t + 1900);
     Some (True, elements_to_dos (tm_mon t + 1) (tm_mday t) year (tm_hour t) (tm_min t) (tm_sec t))
   }"

record dos_elements =
  el_mon :: u16
  el_day :: u16
  el_year :: u16
  el_hour :: u16
  el_min :: u16
  el_sec :: u16

definition tm_of_elements :: "dos_elements \<Rightarrow> tm" where
  "tm_of_elements e =
     \<lparr>tm_sec = uint (el_sec e), tm_min = uint (el_min e), tm_hour = uint (el_hour e),
      tm_mday = uint (el_day e), tm_mon = uint (el_mon e) - 1, tm_year = uint (el_year e) - 1900\<rparr>"

definition ofc_dos_date_time_to_file_time_impl ::
  "(u16 \<Rightarrow> u16 \<Rightarrow> dos_elements) \<Rightarrow> (int \<Rightarrow> int \<Rightarrow> 'ft) \<Rightarrow> u16 \<Rightarrow> u16 \<Rightarrow> (bool \<times> 'ft) option" where
  "ofc_dos_date_time_to_file_time_impl dos_to_elements epoch_time_to_file_time FatDate FatTime = do {
     let t = tm_of_elements (dos_to_elements FatDate FatTime);
     s \<leftarrow> ofc_time_make_time t;
     Some (True, epoch_time_to_file_time (uint s) 0)
   }"

end
