(* ===== verification/Time_Facts.thy ===== *)
theory Time_Facts
  imports Time_Darwin
begin

text \<open>
  The reference calendar the routines of \<open>src/time_darwin.c\<close> are compared with: leap years and
  month lengths by the Gregorian rule, the day after a date, and the number of seconds from
  the beginning of 1970 to a date, summed year by year and month by month.
\<close>

section \<open>The calendar\<close>

definition leap :: "int \<Rightarrow> bool" where
  "leap y \<longleftrightarrow> y mod 4 = 0 \<and> (y mod 100 \<noteq> 0 \<or> y mod 400 = 0)"

definition month_lengths :: "bool \<Rightarrow> int list" where
  "month_lengths l = [31, if l then 29 else 28, 31, 30, 31, 30, 31, 31, 30, 31, 30, 31]"

datatype date = Date (d_year: int) (d_month: int) (d_day: int)

text \<open>Dates in order: by year, then month, then day.\<close>

instantiation date :: linorder
begin

definition less_date :: "date \<Rightarrow> date \<Rightarrow> bool" where
  "less_date a b \<longleftrightarrow> d_year a < d_year b \<or> d_year a = d_year b \<and>
     (d_month a < d_month b \<or> d_month a = d_month b \<and> d_day a < d_day b)"

definition less_eq_date :: "date \<Rightarrow> date \<Rightarrow> bool" where
  "less_eq_date a b \<longleftrightarrow> a < b \<or> (a :: date) = b"

instance
proof (standard, goal_cases)
  case (5 x y)
  then show ?case by (cases x; cases y) (auto simp: less_date_def less_eq_date_def)
qed (auto simp: less_date_def less_eq_date_def)

end

definition month_length :: "int \<Rightarrow> int \<Rightarrow> int" where
  "month_length y m = month_lengths (leap y) ! nat (m - 1)"

definition valid_date :: "date \<Rightarrow> bool" where
  "valid_date d \<longleftrightarrow> 1 \<le> d_month d \<and> d_month d \<le> 12 \<and> 1 \<le> d_day d \<and>
     d_day d \<le> month_length (d_year d) (d_month d)"

fun next_date :: "date \<Rightarrow> date" where
  "next_date (Date y m d) =
     (if d < month_length y m then Date y m (d + 1)
      else if m < 12 then Date y (m + 1) 1
      else Date (y + 1) 1 1)"

section \<open>Days and seconds since 1970\<close>

definition year_length :: "int \<Rightarrow> int" where
  "year_length y = (if leap y then 366 else 365)"

definition jan1 :: "int \<Rightarrow> int" where
  "jan1 y = (\<Sum>k = 1970..<y. year_length k)"

definition before_month :: "int \<Rightarrow> int \<Rightarrow> int" where
  "before_month y m = sum_list (take (nat (m - 1)) (month_lengths (leap y)))"

definition day_of_year :: "date \<Rightarrow> int" where
  "day_of_year d = before_month (d_year d) (d_month d) + d_day d - 1"

definition day_number :: "date \<Rightarrow> int" where
  "day_number d = jan1 (d_year d) + day_of_year d"

definition date_of :: "tm \<Rightarrow> date" where
  "date_of t = Date (tm_year t + 1900) (tm_mon t + 1) (tm_mday t)"

definition second_of_day :: "tm \<Rightarrow> int" where
  "second_of_day t = tm_hour t * 3600 + tm_min t * 60 + tm_sec t"

definition seconds :: "tm \<Rightarrow> int" where
  "seconds t = day_number (date_of t) * 86400 + second_of_day t"

definition valid_tm :: "tm \<Rightarrow> bool" where
  "valid_tm t \<longleftrightarrow> valid_date (date_of t) \<and> 70 \<le> tm_year t \<and> tm_year t < 2 ^ 31 - 1901 \<and>
     0 \<le> tm_hour t \<and> tm_hour t < 24 \<and> 0 \<le> tm_min t \<and> tm_min t < 60 \<and>
     0 \<le> tm_sec t \<and> tm_sec t < 60"

lemma year_length_bounds: "365 \<le> year_length y" "year_length y \<le> 366"
  by (simp_all add: year_length_def)

lemma jan1_1970 [simp]: "jan1 1970 = 0"
  by (simp add: jan1_def)

lemma jan1_step: "1970 \<le> y \<Longrightarrow> jan1 (y + 1) = jan1 y + year_length y"
proof -
  assume "1970 \<le> y"
  then have "{1970..<y + 1} = insert y {1970..<y}" by auto
  then show ?thesis by (simp add: jan1_def)
qed

lemma jan1_mono_le: "1970 \<le> a \<Longrightarrow> jan1 a \<le> jan1 (a + int n)"
proof (induction n)
  case (Suc n)
  then show ?case using jan1_step [of "a + int n"] year_length_bounds(1) [of "a + int n"]
    by (simp add: algebra_simps)
qed simp

lemma jan1_mono: "1970 \<le> a \<Longrightarrow> a \<le> b \<Longrightarrow> jan1 a \<le> jan1 b"
  using jan1_mono_le [of a "nat (b - a)"] by simp

lemma month_cases:
  assumes "1 \<le> (m :: int)" and "m \<le> 12"
  obtains "m = 1" | "m = 2" | "m = 3" | "m = 4" | "m = 5" | "m = 6" | "m = 7" | "m = 8"
    | "m = 9" | "m = 10" | "m = 11" | "m = 12"
proof -
  have "m = 1 \<or> m = 2 \<or> m = 3 \<or> m = 4 \<or> m = 5 \<or> m = 6 \<or> m = 7 \<or> m = 8 \<or> m = 9 \<or> m = 10 \<or>
    m = 11 \<or> m = 12" using assms by presburger
  then show ?thesis using that by blast
qed

lemma month_length_pos: "1 \<le> m \<Longrightarrow> m \<le> 12 \<Longrightarrow> 28 \<le> month_length y m"
  by (erule (1) month_cases) (simp_all add: month_length_def month_lengths_def)

lemma month_length_simps:
  "month_length y 1 = 31" "month_length y 2 = (if leap y then 29 else 28)" "month_length y 3 = 31"
  "month_length y 4 = 30" "month_length y 5 = 31" "month_length y 6 = 30" "month_length y 7 = 31"
  "month_length y 8 = 31" "month_length y 9 = 30" "month_length y 10 = 31" "month_length y 11 = 30"
  "month_length y 12 = 31"
  by (simp_all add: month_length_def month_lengths_def)

lemma before_simps:
  "before_month y 1 = 0"
  "before_month y 2 = 31"
  "before_month y 3 = (if leap y then 60 else 59)"
  "before_month y 4 = (if leap y then 91 else 90)"
  "before_month y 5 = (if leap y then 121 else 120)"
  "before_month y 6 = (if leap y then 152 else 151)"
  "before_month y 7 = (if leap y then 182 else 181)"
  "before_month y 8 = (if leap y then 213 else 212)"
  "before_month y 9 = (if leap y then 244 else 243)"
  "before_month y 10 = (if leap y then 274 else 273)"
  "before_month y 11 = (if leap y then 305 else 304)"
  "before_month y 12 = (if leap y then 335 else 334)"
  by (simp_all add: before_month_def month_lengths_def)

section \<open>The parts of the code against the calendar\<close>

lemma sdiv_smod_nonneg:
  "0 \<le> (a :: int) \<Longrightarrow> 0 < b \<Longrightarrow> a sdiv b = a div b" "0 \<le> a \<Longrightarrow> 0 < b \<Longrightarrow> a smod b = a mod b"
  by (simp_all add: signed_divide_int_def smod_int_alt_def sgn_if)

lemma c_int_Some: "- (2 ^ 31) \<le> n \<Longrightarrow> n < 2 ^ 31 \<Longrightarrow> c_int n = Some n"
  by (simp add: c_int_def)

lemma to_int_id: "- (2 ^ 31) \<le> n \<Longrightarrow> n < 2 ^ 31 \<Longrightarrow> to_int n = n"
  unfolding to_int_def by (rule signed_take_bit_int_eq_self) simp_all

lemma ISLEAP_eq: "0 \<le> y \<Longrightarrow> y < 2 ^ 31 - 1900 \<Longrightarrow> ISLEAP y = Some (leap (y + 1900))"
proof -
  assume y: "0 \<le> y" "y < 2 ^ 31 - 1900"
  have "(y + 1900) mod 4 = 0 \<longleftrightarrow> y mod 4 = 0" "(y + 1900) mod 100 = 0 \<longleftrightarrow> y mod 100 = 0"
    by presburger+
  with y show ?thesis by (simp add: ISLEAP_def leap_def sdiv_smod_nonneg c_int_Some)
qed

lemma DAYS_IN_YEAR_eq:
  "0 \<le> y \<Longrightarrow> y < 2 ^ 31 - 1900 \<Longrightarrow> DAYS_IN_YEAR y = Some (year_length (y + 1900))"
  by (simp add: DAYS_IN_YEAR_def ISLEAP_eq year_length_def)

lemma years_loop_eq:
  assumes "70 \<le> y" and "y \<le> u" and "u \<le> 2 ^ 31 - 1900"
  shows "years_loop y u d = Some (d + jan1 (u + 1900) - jan1 (y + 1900))"
  using assms
proof (induction y u d rule: years_loop.induct)
  case (1 y u d)
  show ?case
  proof (cases "y < u")
    case True
    with 1 show ?thesis
      using jan1_step [of "y + 1900"]
      by (subst years_loop.simps) (simp add: DAYS_IN_YEAR_eq add.commute add.left_commute)
  next
    case False
    with 1 show ?thesis by (subst years_loop.simps) simp
  qed
qed

lemma find_year_eq:
  assumes "70 \<le> y" and "0 \<le> d" and "d < year_length (y + int n + 1900)"
    and "y + int n < 2 ^ 31 - 1901"
  shows "find_year (jan1 (y + int n + 1900) - jan1 (y + 1900) + d) y = Some (d, y + int n)"
  using assms
proof (induction n arbitrary: y)
  case 0
  then show ?case by (subst find_year.simps) (simp add: DAYS_IN_YEAR_eq)
next
  case (Suc n)
  let ?N = "jan1 (y + int (Suc n) + 1900) - jan1 (y + 1900) + d"
  have step: "jan1 (y + 1 + 1900) = jan1 (y + 1900) + year_length (y + 1900)"
    using jan1_step [of "y + 1900"] Suc.prems(1) by (simp add: algebra_simps)
  have le: "jan1 (y + 1 + 1900) \<le> jan1 (y + int (Suc n) + 1900)"
    using Suc.prems(1) by (intro jan1_mono) simp_all
  have "find_year ?N y = find_year (?N - year_length (y + 1900)) (y + 1)"
    using Suc.prems step le by (subst find_year.simps) (simp add: DAYS_IN_YEAR_eq c_int_Some)
  also have "?N - year_length (y + 1900) = jan1 (y + 1 + int n + 1900) - jan1 (y + 1 + 1900) + d"
    using step by (simp add: algebra_simps)
  also have "find_year \<dots> (y + 1) = Some (d, y + 1 + int n)"
    using Suc.prems by (intro Suc.IH) (simp_all add: algebra_simps)
  finally show ?case by (simp add: algebra_simps)
qed

text \<open>Every day number is a day of some year.\<close>

lemma day_split:
  assumes "0 \<le> N"
  shows "\<exists>y d. 1970 \<le> y \<and> N = jan1 y + d \<and> 0 \<le> d \<and> d < year_length y \<and> (y - 1970) * 365 \<le> N"
  using assms
proof (induction "nat N" arbitrary: N)
  case 0
  then show ?case using year_length_bounds(1) [of 1970] by (intro exI [of _ 1970] exI [of _ 0]) simp
next
  case (Suc n)
  then obtain y d where y: "1970 \<le> y" "N - 1 = jan1 y + d" "0 \<le> d" "d < year_length y"
      "(y - 1970) * 365 \<le> N - 1"
    using Suc.hyps(1) [of "N - 1"] by force
  show ?case
  proof (cases "d + 1 < year_length y")
    case True
    then show ?thesis using y by (intro exI [of _ y] exI [of _ "d + 1"]) simp
  next
    case False
    have ge: "(a - 1970) * 365 \<le> jan1 a" if "1970 \<le> a" "a = 1970 + int k" for a k
      using that
    proof (induction k arbitrary: a)
      case (Suc k)
      then show ?case using jan1_step [of "a - 1"] year_length_bounds(1) [of "a - 1"] Suc.IH [of "a - 1"]
        by simp
    qed simp
    from False show ?thesis
      using y jan1_step [OF y(1)] year_length_bounds(1) [of "y + 1"]
        ge [of "y + 1" "nat (y + 1 - 1970)"]
      by (intro exI [of _ "y + 1"] exI [of _ 0]) simp
  qed
qed

text \<open>The search for the month.\<close>

lemma dbm_simps [simp]:
  "days_before_month 0 = Some 0" "days_before_month 1 = Some 31" "days_before_month 2 = Some 59"
  "days_before_month 3 = Some 90" "days_before_month 4 = Some 120" "days_before_month 5 = Some 151"
  "days_before_month 6 = Some 181" "days_before_month 7 = Some 212" "days_before_month 8 = Some 243"
  "days_before_month 9 = Some 273" "days_before_month 10 = Some 304" "days_before_month 11 = Some 334"
  by (simp_all add: days_before_month_def DAYS_BEFORE_MONTH_def)

lemma find_month_steps:
  "find_month d 0 = (if 31 \<le> d then find_month d 1 else Some 0)"
  "find_month d 1 = (if 59 \<le> d then find_month d 2 else Some 1)"
  "find_month d 2 = (if 90 \<le> d then find_month d 3 else Some 2)"
  "find_month d 3 = (if 120 \<le> d then find_month d 4 else Some 3)"
  "find_month d 4 = (if 151 \<le> d then find_month d 5 else Some 4)"
  "find_month d 5 = (if 181 \<le> d then find_month d 6 else Some 5)"
  "find_month d 6 = (if 212 \<le> d then find_month d 7 else Some 6)"
  "find_month d 7 = (if 243 \<le> d then find_month d 8 else Some 7)"
  "find_month d 8 = (if 273 \<le> d then find_month d 9 else Some 8)"
  "find_month d 9 = (if 304 \<le> d then find_month d 10 else Some 9)"
  "find_month d 10 = (if 334 \<le> d then find_month d 11 else Some 10)"
  "find_month d 11 = Some 11"
  by (subst find_month.simps; simp)+

text \<open>The part of \<open>ofc_time_local_time\<close> between the year and the day of the month.\<close>

definition month_part :: "bool \<Rightarrow> int \<Rightarrow> (int \<times> int) option" where
  "month_part l days =
     (if l then
        if days = 59 then Some (days, 1)
        else do {
          let days = (if days > 59 then days - 1 else days);
          mon \<leftarrow> find_month days 0;
          Some (days, mon)
        }
      else do { mon \<leftarrow> find_month days 0; Some (days, mon) })"

lemma month_part_eq:
  assumes "valid_date d"
  shows "\<exists>days before. month_part (leap (d_year d)) (day_of_year d) = Some (days, d_month d - 1) \<and>
    days_before_month (d_month d - 1) = Some before \<and> days - before + 1 = d_day d \<and>
    0 \<le> days \<and> days < 366"
proof -
  have "1 \<le> d_month d" "d_month d \<le> 12" "1 \<le> d_day d" "d_day d \<le> month_length (d_year d) (d_month d)"
    using assms by (simp_all add: valid_date_def)
  then show ?thesis
    by - (erule (1) month_cases;
        simp add: month_part_def day_of_year_def month_length_simps before_simps find_month_steps
          split: if_splits)
qed

lemma day_of_year_bounds:
  assumes "valid_date d"
  shows "0 \<le> day_of_year d" "day_of_year d < year_length (d_year d)"
proof -
  have v: "1 \<le> d_month d" "d_month d \<le> 12" "1 \<le> d_day d"
    "d_day d \<le> month_length (d_year d) (d_month d)"
    using assms by (simp_all add: valid_date_def)
  then show "0 \<le> day_of_year d"
    by - (erule (1) month_cases; simp add: day_of_year_def before_simps)
  from v show "day_of_year d < year_length (d_year d)"
    by - (erule (1) month_cases;
        simp add: day_of_year_def before_simps month_length_simps year_length_def split: if_splits)
qed

lemma day_of_year_onto:
  assumes "0 \<le> n" and "n < year_length y"
  shows "\<exists>m d. valid_date (Date y m d) \<and> day_of_year (Date y m d) = n"
proof -
  let ?c = "before_month y"
  have c: "?c 1 = 0" "?c 12 + month_length y 12 = year_length y"
    by (simp_all add: before_simps month_length_simps year_length_def)
  have next_c: "?c (m + 1) = ?c m + month_length y m" if "1 \<le> m" "m \<le> 11" for m
  proof -
    have "m \<le> 12" using that by simp
    with that(1) show ?thesis
      by (rule month_cases) (use that in \<open>simp_all add: before_simps month_length_simps\<close>)
  qed
  have "\<exists>m. 1 \<le> m \<and> m \<le> 12 \<and> ?c m \<le> n \<and> n < ?c m + month_length y m"
  proof (rule ccontr)
    assume no: "\<not> ?thesis"
    have "?c (int k + 1) \<le> n" if "k \<le> 11" for k
      using that
    proof (induction k)
      case (Suc k)
      then have "?c (int k + 1) \<le> n" by simp
      then have "?c (int k + 1) + month_length y (int k + 1) \<le> n" using no Suc.prems by force
      then show ?case using next_c [of "int k + 1"] Suc.prems by (simp add: algebra_simps)
    qed (use assms c in simp)
    from this [of 11] no c assms show False by force
  qed
  then obtain m where "1 \<le> m" "m \<le> 12" "?c m \<le> n" "n < ?c m + month_length y m" by blast
  then show ?thesis
    by (intro exI [of _ m] exI [of _ "n - ?c m + 1"]) (simp add: valid_date_def day_of_year_def)
qed

section \<open>The routines on valid dates\<close>

lemma second_of_day_bounds: "valid_tm t \<Longrightarrow> 0 \<le> second_of_day t \<and> second_of_day t < 86400"
  by (simp add: valid_tm_def second_of_day_def)

lemma seconds_split:
  assumes "valid_tm t"
  shows "seconds t div 86400 = day_number (date_of t)" and "seconds t mod 86400 = second_of_day t"
    and "0 \<le> seconds t"
proof -
  note b = second_of_day_bounds [OF assms]
  show "seconds t div 86400 = day_number (date_of t)" "seconds t mod 86400 = second_of_day t"
    using b by (simp_all add: seconds_def)
  have "valid_date (date_of t)" "1970 \<le> d_year (date_of t)"
    using assms by (simp_all add: valid_tm_def date_of_def)
  then have "0 \<le> day_number (date_of t)"
    using jan1_mono [of 1970 "d_year (date_of t)"] day_of_year_bounds(1)
    by (simp add: day_number_def add_nonneg_nonneg)
  then show "0 \<le> seconds t" using b by (simp add: seconds_def)
qed

lemma month_part_fold:
  assumes "0 \<le> y" and "y < 2 ^ 31 - 1900"
  shows "(if year_length (y + 1900) = 366 then do {
          feb \<leftarrow> days_before_month 2;
          if days = feb then Some (days, 1)
          else do {
            let days = (if days > feb then days - 1 else days);
            mon \<leftarrow> find_month days 0;
            Some (days, mon)
          }
        } else do {
          mon \<leftarrow> find_month days 0;
          Some (days, mon)
        }) = month_part (leap (y + 1900)) days"
  by (simp add: month_part_def year_length_def)

lemma local_time_eq:
  assumes "valid_tm t"
  shows "ofc_time_local_time (seconds t) = Some t"
proof -
  let ?d = "date_of t"
  have y: "70 \<le> tm_year t" "tm_year t < 2 ^ 31 - 1901" and d: "valid_date ?d"
    using assms by (simp_all add: valid_tm_def)
  note b = second_of_day_bounds [OF assms] and sp = seconds_split [OF assms]
  have yd: "d_year ?d = tm_year t + 1900" "d_month ?d = tm_mon t + 1" "d_day ?d = tm_mday t"
    by (simp_all add: date_of_def)
  have fy: "find_year (day_number ?d) 70 = Some (day_of_year ?d, tm_year t)"
    using find_year_eq [of 70 "day_of_year ?d" "nat (tm_year t - 70)"] day_of_year_bounds [OF d] y
    by (simp add: day_number_def yd)
  obtain days before where mp: "month_part (leap (tm_year t + 1900)) (day_of_year ?d) = Some (days, tm_mon t)"
      "days_before_month (tm_mon t) = Some before" "days - before + 1 = tm_mday t" "0 \<le> days" "days < 366"
    using month_part_eq [OF d] by (auto simp: yd)
  have rest: "\<lparr>tm_sec = to_int (second_of_day t smod 3600) smod 60,
        tm_min = to_int (second_of_day t smod 3600) sdiv 60,
        tm_hour = to_int (second_of_day t) sdiv 3600,
        tm_mday = to_int days - before + 1, tm_mon = tm_mon t, tm_year = tm_year t\<rparr> = t"
  proof -
    have m: "0 \<le> tm_min t * 60 + tm_sec t" "tm_min t * 60 + tm_sec t < 3600"
      using assms by (simp_all add: valid_tm_def)
    have "second_of_day t = (tm_min t * 60 + tm_sec t) + tm_hour t * 3600"
      by (simp add: second_of_day_def)
    then have h: "second_of_day t mod 3600 = tm_min t * 60 + tm_sec t"
        "second_of_day t div 3600 = tm_hour t"
      using m by (simp_all only: mod_mult_self1 div_mult_self1 mod_pos_pos_trivial div_pos_pos_trivial)
    show ?thesis
      using assms b h m mp(3-5) by (simp add: sdiv_smod_nonneg to_int_id valid_tm_def)
  qed
  show ?thesis
    using sp b y mp rest fy
    by (simp add: ofc_time_local_time_def sdiv_smod_nonneg DAYS_IN_YEAR_eq month_part_fold
        del: dbm_simps)
qed

lemma before_month_table:
  assumes "1 \<le> m" and "m \<le> 12"
  shows "days_before_month (m - 1) =
    Some (before_month y m - (if 2 < m \<and> leap y then 1 else 0))"
  using assms by (rule month_cases) (simp_all add: before_simps)

lemma before_month_range:
  assumes "1 \<le> m" and "m \<le> 12"
  shows "\<exists>k. days_before_month (m - 1) = Some k \<and> 0 \<le> k \<and> k \<le> 334"
  using assms by (rule month_cases) simp_all

lemma make_time_eq:
  assumes "valid_tm t"
  shows "ofc_time_make_time t = Some (word_of_int (seconds t))"
proof -
  let ?d = "date_of t"
  have y: "70 \<le> tm_year t" "tm_year t < 2 ^ 31 - 1901"
    and d: "1 \<le> tm_mon t + 1" "tm_mon t + 1 \<le> 12" "1 \<le> tm_mday t"
      "tm_mday t \<le> month_length (tm_year t + 1900) (tm_mon t + 1)"
    using assms by (simp_all add: valid_tm_def valid_date_def date_of_def)
  have "month_length (tm_year t + 1900) (tm_mon t + 1) \<le> 31"
    using d(1,2) by (rule month_cases) (simp_all add: month_length_simps)
  with d have day: "c_int (tm_mday t - 1) = Some (tm_mday t - 1)" by (simp add: c_int_Some)
  have b: "days_before_month (tm_mon t) = Some (before_month (tm_year t + 1900) (tm_mon t + 1) -
      (if 1 < tm_mon t \<and> leap (tm_year t + 1900) then 1 else 0))"
    using before_month_table [OF d(1,2), of "tm_year t + 1900"] by (simp split: if_splits)
  have feb: "(if tm_mon t > 1
              then do { n \<leftarrow> DAYS_IN_YEAR (tm_year t); Some (if n = 366 then e + 1 else e) }
              else Some e) =
      Some (e + (if 1 < tm_mon t \<and> leap (tm_year t + 1900) then 1 else 0))" for e :: int
    using y by (simp add: DAYS_IN_YEAR_eq year_length_def)
  have yrs: "(if tm_year t > 70 then years_loop 70 (tm_year t) e else Some e) =
      Some (e + jan1 (tm_year t + 1900))" for e
  proof (cases "tm_year t > 70")
    case True
    then show ?thesis using years_loop_eq [of 70 "tm_year t" e] y by simp
  next
    case False
    then have "tm_year t + 1900 = 1970" using y by simp
    then show ?thesis using False by (simp only: jan1_1970) simp
  qed
  let ?A = "tm_sec t + tm_min t * 60 + tm_hour t * 3600"
  let ?B = "tm_mday t - 1 + before_month (tm_year t + 1900) (tm_mon t + 1) + jan1 (tm_year t + 1900)"
  obtain k where k: "days_before_month (tm_mon t) = Some k" "0 \<le> k" "k \<le> 334"
    "k = before_month (tm_year t + 1900) (tm_mon t + 1) -
      (if 1 < tm_mon t \<and> leap (tm_year t + 1900) then 1 else 0)"
    using before_month_range [OF d(1,2)] b by auto
  have dm: "c_int (tm_mday t - 1 + k) = Some (tm_mday t - 1 + k)"
    using k(2,3) d \<open>month_length (tm_year t + 1900) (tm_mon t + 1) \<le> 31\<close> by (simp add: c_int_Some)
  have "ofc_time_make_time t = Some (word_of_int ?A + word_of_int (?B * 86400))"
    unfolding ofc_time_make_time_def day k(1) dm Let_def feb yrs bind.bind_lunit
    by (simp add: k(4))
  also have "\<dots> = Some (word_of_int (?A + ?B * 86400))" by (simp only: of_int_add)
  also have "?A + ?B * 86400 = seconds t"
    by (simp add: seconds_def day_number_def day_of_year_def date_of_def second_of_day_def
        algebra_simps)
  finally show ?thesis .
qed

text \<open>Every second up to 2^55 is one of a valid date, and of one only.\<close>

lemma seconds_onto:
  assumes "0 \<le> s" and "s < 2 ^ 55"
  shows "\<exists>t. valid_tm t \<and> seconds t = s"
proof -
  have N: "0 \<le> s div 86400" using assms by simp
  obtain y d where y: "1970 \<le> y" "s div 86400 = jan1 y + d" "0 \<le> d" "d < year_length y"
      "(y - 1970) * 365 \<le> s div 86400"
    using day_split [OF N] by blast
  obtain m k where mk: "valid_date (Date y m k)" "day_of_year (Date y m k) = d"
    using day_of_year_onto [OF y(3,4)] by blast
  define r where "r = s mod 86400"
  have r: "0 \<le> r" "r < 86400" by (simp_all add: r_def)
  let ?t = "\<lparr>tm_sec = r mod 60, tm_min = r div 60 mod 60, tm_hour = r div 3600, tm_mday = k,
             tm_mon = m - 1, tm_year = y - 1900\<rparr>"
  have hms: "r div 3600 * 3600 + r div 60 mod 60 * 60 + r mod 60 = r"
  proof -
    have "r div 3600 = r div 60 div 60" using zdiv_zmult2_eq [of 60 r 60] by simp
    then show ?thesis using div_mult_mod_eq [of r 60] div_mult_mod_eq [of "r div 60" 60] by linarith
  qed
  have h24: "r div 3600 < 24" "0 \<le> r div 3600"
    using r div_mult_mod_eq [of r 3600] pos_mod_bound [of 3600 r] pos_mod_sign [of 3600 r] by linarith+
  have "s div 86400 \<le> 2 ^ 55 div 86400" using assms(2) by (intro zdiv_mono1) simp_all
  then have "y - 1970 < 2 ^ 31 - 1971" using y(5) by simp
  then have "valid_tm ?t" using y(1) mk(1) h24 by (simp add: valid_tm_def date_of_def)
  moreover have "seconds ?t = s"
  proof -
    have "day_number (date_of ?t) = s div 86400"
      using mk(2) y(2) by (simp add: date_of_def day_number_def)
    moreover have "second_of_day ?t = r" using hms by (simp add: second_of_day_def)
    ultimately show ?thesis unfolding seconds_def by (simp only: r_def div_mult_mod_eq)
  qed
  ultimately show ?thesis by blast
qed

lemma next_date_number:
  assumes "valid_date d" and "1970 \<le> d_year d"
  shows "day_number (next_date d) = day_number d + 1" and "valid_date (next_date d)"
proof -
  obtain y m k where d: "d = Date y m k" by (cases d)
  have m: "1 \<le> m" "m \<le> 12" and k: "1 \<le> k" "k \<le> month_length y m"
    using assms by (simp_all add: d valid_date_def)
  have step: "before_month y (m + 1) = before_month y m + month_length y m" if "m < 12"
    using m by (rule month_cases) (use that in \<open>simp_all add: before_simps month_length_simps\<close>)
  have last: "before_month y 12 + month_length y 12 = year_length y" "before_month z 1 = 0" for z
    by (simp_all add: before_simps month_length_simps year_length_def)
  show "day_number (next_date d) = day_number d + 1"
  proof (cases "m = 12")
    case True
    then show ?thesis using k assms(2) last jan1_step [of y]
      by (auto simp: d day_number_def day_of_year_def)
  next
    case False
    then show ?thesis using k m step by (auto simp: d day_number_def day_of_year_def)
  qed
  have "1 \<le> month_length y' m'" if "1 \<le> m'" "m' \<le> 12" for y' m'
    using month_length_pos [OF that, of y'] by simp
  then show "valid_date (next_date d)"
    using m k by (auto simp: d valid_date_def)
qed

text \<open>The day number orders the valid dates.\<close>

lemma before_month_le:
  assumes "1 \<le> m" and "m < m'" and "m' \<le> 12"
  shows "before_month y m + month_length y m \<le> before_month y m'"
proof -
  have m12: "m \<le> 12" using assms by simp
  have m'1: "1 \<le> m'" using assms by simp
  from assms(1) m12 show ?thesis
    by (rule month_cases; use m'1 assms(3) in \<open>rule month_cases\<close>)
      (use assms(2) in \<open>simp_all add: before_simps month_length_simps\<close>)
qed

lemma day_number_less:
  assumes "valid_date a" and "valid_date b" and "1970 \<le> d_year a" and "a < b"
  shows "day_number a < day_number b"
proof (cases "d_year a < d_year b")
  case True
  then have "jan1 (d_year a + 1) \<le> jan1 (d_year b)" using assms(3) by (intro jan1_mono) simp_all
  then show ?thesis
    using day_of_year_bounds [OF assms(1)] day_of_year_bounds [OF assms(2)] jan1_step [OF assms(3)]
    by (simp add: day_number_def)
next
  case False
  with assms(4) have y: "d_year a = d_year b" and
    md: "d_month a < d_month b \<or> d_month a = d_month b \<and> d_day a < d_day b"
    by (auto simp: less_date_def)
  from md show ?thesis
    using assms(1,2) before_month_le [of "d_month a" "d_month b" "d_year b"]
    by (auto simp: day_number_def day_of_year_def y valid_date_def)
qed

end
