(* ===== verification/Time_Correct.thy ===== *)
theory Time_Correct
  imports Time_Facts
begin

text \<open>
  What the calendar and clock routines of \<open>src/time_darwin.c\<close> compute, against the reference
  calendar of \<open>Time_Facts\<close>.
\<close>

lemma local_time_exists:
  assumes "0 \<le> s" and "s < 2 ^ 55"
  obtains t where "ofc_time_local_time s = Some t" and "valid_tm t" and "seconds t = s"
  using seconds_onto [OF assms] local_time_eq by blast

lemma local_time_inv:
  "0 \<le> s \<Longrightarrow> s < 2 ^ 55 \<Longrightarrow> ofc_time_local_time s = Some t \<Longrightarrow> valid_tm t \<and> seconds t = s"
  by (erule (1) local_time_exists) simp

lemma date_of_day:
  assumes "valid_tm t" and "valid_tm t'" and "day_number (date_of t) \<le> day_number (date_of t')"
  shows "date_of t \<le> date_of t'"
proof (rule ccontr)
  assume "\<not> date_of t \<le> date_of t'"
  then have "day_number (date_of t') < day_number (date_of t)"
    using assms by (intro day_number_less) (simp_all add: valid_tm_def date_of_def)
  with assms(3) show False by simp
qed

text \<open>
  C30: \<open>ofc_time_local_time\<close> returns on every time from 1970 up to 2^55 seconds (its loops end, no
  table read is out of bounds, no \<open>int\<close> overflows), with a valid date of the calendar whose
  distance from the beginning of 1970 is the time it was given.
\<close>

theorem local_time_total:
  assumes "0 \<le> s" and "s < 2 ^ 55"
  shows "\<exists>t. ofc_time_local_time s = Some t \<and> valid_tm t \<and> seconds t = s"
  using assms by (rule local_time_exists) blast

theorem local_time_total_witness:
  "\<exists>t. ofc_time_local_time 951782400 = Some t \<and> valid_tm t \<and> seconds t = 951782400"
  by (rule local_time_total) simp_all

text \<open>
  C11: On every valid date before 2^32 seconds (February 2106) \<open>ofc_time_make_time\<close> gives the exact
  number of seconds since 1970, and \<open>ofc_time_local_time\<close> gives the date back, all six fields.
\<close>

theorem make_local_roundtrip:
  assumes "valid_tm t" and "seconds t < 2 ^ 32"
  shows "\<exists>s. ofc_time_make_time t = Some s \<and> uint s = seconds t \<and>
    ofc_time_local_time (uint s) = Some t"
proof -
  have "uint (word_of_int (seconds t) :: u32) = seconds t"
    using assms seconds_split(3) [OF assms(1)] by (simp add: unsigned_of_int take_bit_int_eq_self)
  then show ?thesis using assms by (simp add: make_time_eq local_time_eq)
qed

definition leap_day :: tm where
  "leap_day = \<lparr>tm_sec = 59, tm_min = 30, tm_hour = 12, tm_mday = 29, tm_mon = 2 - 1, tm_year = 80\<rparr>"

lemma leap_day_valid: "valid_tm leap_day"
  by (simp add: valid_tm_def leap_day_def date_of_def valid_date_def month_length_def
      month_lengths_def leap_def)

lemma leap_day_seconds: "seconds leap_day = 320675459"
proof -
  have "jan1 1980 = 3652"
    using jan1_step [of 1970] jan1_step [of 1971] jan1_step [of 1972] jan1_step [of 1973]
      jan1_step [of 1974] jan1_step [of 1975] jan1_step [of 1976] jan1_step [of 1977]
      jan1_step [of 1978] jan1_step [of 1979] by (simp add: year_length_def leap_def)
  then show ?thesis
    by (simp add: seconds_def day_number_def day_of_year_def leap_day_def date_of_def
        before_simps second_of_day_def)
qed

theorem make_local_roundtrip_witness:
  "\<exists>s. ofc_time_make_time leap_day = Some s \<and> uint s = 320675459 \<and>
     ofc_time_local_time 320675459 = Some leap_day"
  using make_local_roundtrip [OF leap_day_valid] by (auto simp: leap_day_seconds)

text \<open>
  C16: A day later \<open>ofc_time_local_time\<close> gives the next date of the calendar (month ends, leap days and
  year ends included) at the same time of the day.
\<close>

theorem local_time_next_day:
  assumes "0 \<le> s" and "s + 86400 < 2 ^ 55" and "ofc_time_local_time s = Some t"
  shows "\<exists>t'. ofc_time_local_time (s + 86400) = Some t' \<and>
    date_of t' = next_date (date_of t) \<and> second_of_day t' = second_of_day t"
proof -
  have "s < 2 ^ 55" using assms by simp
  with assms(1,3) have t: "valid_tm t" "seconds t = s" using local_time_inv by blast+
  have "0 \<le> s + 86400" using assms by simp
  with assms(2) obtain t' where t': "ofc_time_local_time (s + 86400) = Some t'" "valid_tm t'"
      "seconds t' = s + 86400" by (auto elim: local_time_exists)
  have v: "valid_date (date_of t)" "valid_date (date_of t')" "1970 \<le> d_year (date_of t)"
      "1970 \<le> d_year (date_of t')"
    using t t' by (simp_all add: valid_tm_def date_of_def)
  note n = next_date_number [OF v(1,3)]
  have d: "day_number (date_of t') = day_number (date_of t) + 1"
    using seconds_split(1) [OF t(1)] seconds_split(1) [OF t'(2)] t(2) t'(3) by simp
  have y: "1970 \<le> d_year (next_date (date_of t))" using v(3) by (cases "date_of t") auto
  have "date_of t' = next_date (date_of t)"
    using day_number_less [OF v(2) n(2) v(4)] day_number_less [OF n(2) v(2) y] d n(1)
    by (cases "date_of t'" "next_date (date_of t)" rule: linorder_cases) simp_all
  moreover have "second_of_day t' = second_of_day t"
    using seconds_split(2) [OF t(1)] seconds_split(2) [OF t'(2)] t(2) t'(3) by simp
  ultimately show ?thesis using t'(1) by blast
qed

theorem local_time_next_day_witness:
  "\<exists>t'. ofc_time_local_time (320675459 + 86400) = Some t' \<and> date_of t' = Date 1980 3 1"
proof -
  have "ofc_time_local_time 320675459 = Some leap_day"
    using local_time_eq [OF leap_day_valid] by (simp add: leap_day_seconds)
  moreover have "next_date (date_of leap_day) = Date 1980 3 1"
    by (simp add: leap_day_def date_of_def month_length_def month_lengths_def leap_def)
  ultimately show ?thesis using local_time_next_day [of 320675459 leap_day] by auto
qed

text \<open>Broken-down times in order: by date, then hour, minute and second.\<close>

definition earlier :: "tm \<Rightarrow> tm \<Rightarrow> bool" where
  "earlier t t' \<longleftrightarrow> date_of t < date_of t' \<or> date_of t = date_of t' \<and>
     (tm_hour t < tm_hour t' \<or> tm_hour t = tm_hour t' \<and>
       (tm_min t < tm_min t' \<or> tm_min t = tm_min t' \<and> tm_sec t < tm_sec t'))"

lemma earlier_seconds:
  assumes "valid_tm t" and "valid_tm t'" and "earlier t t'"
  shows "seconds t < seconds t'"
proof -
  note s = seconds_split(1,2) [OF assms(1)] seconds_split(1,2) [OF assms(2)]
  have v: "valid_date (date_of t)" "valid_date (date_of t')" "1970 \<le> d_year (date_of t)"
    using assms(1,2) by (simp_all add: valid_tm_def date_of_def)
  consider "date_of t < date_of t'" | "date_of t = date_of t'" "second_of_day t < second_of_day t'"
    using assms unfolding earlier_def valid_tm_def second_of_day_def by linarith
  then show ?thesis
  proof cases
    case 1
    then have "day_number (date_of t) < day_number (date_of t')" by (rule day_number_less [OF v])
    with s(1,3) show ?thesis by (metis linorder_not_le zdiv_mono1 zero_less_numeral)
  next
    case 2
    then show ?thesis using s by (metis div_mult_mod_eq add_less_cancel_left)
  qed
qed

lemma earlier_total: "t = t' \<or> earlier t t' \<or> earlier t' t"
proof -
  have "t = t'" if "date_of t = date_of t'" "tm_hour t = tm_hour t'" "tm_min t = tm_min t'" "tm_sec t = tm_sec t'"
    using that by (cases t; cases t') (auto simp: date_of_def)
  then show ?thesis
    using linorder_less_linear [of "date_of t" "date_of t'"] linorder_less_linear [of "tm_hour t" "tm_hour t'"]
      linorder_less_linear [of "tm_min t" "tm_min t'"] linorder_less_linear [of "tm_sec t" "tm_sec t'"]
    unfolding earlier_def by metis
qed

text \<open>
  C31: \<open>ofc_time_local_time\<close> keeps the order of times: of two times the later one, and only that, has
  the later date or the same date and a later time of the day (hour, then minute, then second);
  two times have the same date exactly when they fall on the same day.
\<close>

theorem local_time_ordered:
  assumes "0 \<le> s" and "s < 2 ^ 55" and "0 \<le> s'" and "s' < 2 ^ 55"
    and "ofc_time_local_time s = Some t" and "ofc_time_local_time s' = Some t'"
  shows "(s < s' \<longleftrightarrow> date_of t < date_of t' \<or> date_of t = date_of t' \<and>
      (tm_hour t < tm_hour t' \<or> tm_hour t = tm_hour t' \<and>
        (tm_min t < tm_min t' \<or> tm_min t = tm_min t' \<and> tm_sec t < tm_sec t'))) \<and>
    (date_of t = date_of t' \<longleftrightarrow> s div 86400 = s' div 86400)"
proof -
  have t: "valid_tm t" "seconds t = s" "valid_tm t'" "seconds t' = s'"
    using assms local_time_inv [of s t] local_time_inv [of s' t'] by simp_all
  have d: "day_number (date_of t) = s div 86400" "day_number (date_of t') = s' div 86400"
    using seconds_split(1) [OF t(1)] seconds_split(1) [OF t(3)] t by simp_all
  have "s < s' \<longleftrightarrow> earlier t t'"
    using earlier_seconds [OF t(1,3)] earlier_seconds [OF t(3,1)] earlier_total [of t t'] t(2,4) by auto
  moreover have "date_of t = date_of t' \<longleftrightarrow> s div 86400 = s' div 86400"
    using date_of_day [OF t(1,3)] date_of_day [OF t(3,1)] d by (metis order_antisym order_refl)
  ultimately show ?thesis unfolding earlier_def by blast
qed

theorem local_time_ordered_witness:
  "\<exists>t'. ofc_time_local_time 320675460 = Some t' \<and> date_of leap_day = date_of t' \<and>
     (12 < tm_hour t' \<or> 12 = tm_hour t' \<and> (30 < tm_min t' \<or> 30 = tm_min t' \<and> 59 < tm_sec t'))"
proof -
  obtain t' where t': "ofc_time_local_time 320675460 = Some t'"
    using local_time_exists [of 320675460] by auto
  have leap: "ofc_time_local_time 320675459 = Some leap_day"
    using local_time_eq [OF leap_day_valid] by (simp add: leap_day_seconds)
  note o = local_time_ordered [OF _ _ _ _ leap t', simplified]
  have day: "date_of leap_day = date_of t'" using o by blast
  then have "tm_hour leap_day < tm_hour t' \<or> tm_hour leap_day = tm_hour t' \<and>
      (tm_min leap_day < tm_min t' \<or> tm_min leap_day = tm_min t' \<and> tm_sec leap_day < tm_sec t')"
    using o order_less_irrefl [of "date_of t'"] by (elim conjE disjE) simp_all
  with t' day show ?thesis by (simp add: leap_day_def)
qed

text \<open>
  C29: A DOS date that of_core unpacks to a valid date before February 2106 survives the way to a
  file time and back: the elements handed to the packing routine are the ones unpacked. What
  it takes from of_core is that the file time keeps the seconds it is made from.
\<close>

theorem dos_date_roundtrip:
  assumes "\<And>s. 0 \<le> s \<Longrightarrow> s < 2 ^ 32 \<Longrightarrow> f2e (e2f s 0) = (s, 0)"
    and "valid_tm (tm_of_elements (unpack d t))"
    and "seconds (tm_of_elements (unpack d t)) < 2 ^ 32"
  shows "\<exists>ft. ofc_dos_date_time_to_file_time_impl unpack e2f d t = Some (True, ft) \<and>
    ofc_file_time_to_dos_date_time_impl f2e pack ft =
      Some (True, pack (uint (el_mon (unpack d t))) (uint (el_day (unpack d t)))
        (uint (el_year (unpack d t))) (uint (el_hour (unpack d t)))
        (uint (el_min (unpack d t))) (uint (el_sec (unpack d t))))"
proof -
  let ?t = "tm_of_elements (unpack d t)"
  have u: "uint (word_of_int (seconds ?t) :: u32) = seconds ?t"
    using assms(3) seconds_split(3) [OF assms(2)] by (simp add: unsigned_of_int take_bit_int_eq_self)
  have "f2e (e2f (seconds ?t) 0) = (seconds ?t, 0)"
    using assms(1,3) seconds_split(3) [OF assms(2)] by blast
  moreover have year: "c_int (tm_year ?t + 1900) = Some (tm_year ?t + 1900)"
    using assms(2) by (simp add: valid_tm_def c_int_Some)
  ultimately show ?thesis
    by (simp add: ofc_dos_date_time_to_file_time_impl_def ofc_file_time_to_dos_date_time_impl_def
        make_time_eq [OF assms(2)] local_time_eq [OF assms(2)] u year)
      (simp add: tm_of_elements_def)
qed

definition demo_elements :: "u16 \<Rightarrow> u16 \<Rightarrow> dos_elements" where
  "demo_elements d t =
     \<lparr>el_mon = 2, el_day = 29, el_year = 1980, el_hour = 12, el_min = 30, el_sec = 59\<rparr>"

theorem dos_date_roundtrip_witness:
  "\<exists>ft. ofc_dos_date_time_to_file_time_impl demo_elements (\<lambda>s n. s * 10000000 + n) 93 25565 = Some (True, ft) \<and>
     ofc_file_time_to_dos_date_time_impl (\<lambda>f. (f div 10000000, f mod 10000000))
       (\<lambda>mo da ye ho mi se. (word_of_int da, word_of_int se)) ft = Some (True, 29, 59)"
proof -
  have t: "tm_of_elements (demo_elements 93 25565) = leap_day"
    by (simp add: tm_of_elements_def demo_elements_def leap_day_def)
  show ?thesis
    using dos_date_roundtrip [of "\<lambda>f. (f div 10000000, f mod 10000000)" "\<lambda>s n. s * 10000000 + n"
        demo_elements 93 25565 "\<lambda>mo da ye ho mi se. (word_of_int da, word_of_int se)"]
    unfolding t by (simp add: leap_day_valid leap_day_seconds) (simp add: demo_elements_def)
qed

text \<open>
  A DOS date without a month (the date 0 that stands for "no date") makes
  \<open>ofc_dos_date_time_to_file_time_impl\<close> read \<open>_DAYS_BEFORE_MONTH[-1]\<close>, and a month above 12 reads
  past the end of the table; nothing checks the month.
\<close>

theorem dos_date_bad_month:
  assumes "uint (el_mon (unpack d t)) = 0 \<or> 12 < uint (el_mon (unpack d t))"
  shows "ofc_dos_date_time_to_file_time_impl unpack e2f d t = None"
  using assms
  by (auto simp: ofc_dos_date_time_to_file_time_impl_def ofc_time_make_time_def tm_of_elements_def
      days_before_month_def)

theorem dos_date_bad_month_witness:
  "ofc_dos_date_time_to_file_time_impl (\<lambda>d t. (demo_elements d t)\<lparr>el_mon := 0\<rparr>) (\<lambda>s n. s) 0 0 = None"
  by (rule dos_date_bad_month) simp

text \<open>
  \<open>ofc_time_get_timezone_impl\<close> gives minutes west of Greenwich in 16 bits: read as a signed
  number they are the negated offset, for every offset of whole minutes within a day.
\<close>

theorem timezone_minutes:
  assumes "gmtoff = m * 60" and "- 1440 \<le> m" and "m \<le> 1440"
  shows "\<exists>z. ofc_time_get_timezone_impl (Some gmtoff) = Some z \<and> sint z = - m"
proof -
  have "(- 1 * gmtoff) sdiv 60 = - m"
    using assms(1) by (simp add: signed_divide_int_def sgn_if abs_if) (simp flip: mult_minus_left)
  then have "ofc_time_get_timezone_impl (Some gmtoff) = Some (word_of_int (- m))"
    by (simp only: ofc_time_get_timezone_impl_def bind.bind_lunit)
  moreover have "sint (word_of_int (- m) :: u16) = - m"
    using assms(2,3) unfolding sint_sbintrunc' by (intro signed_take_bit_int_eq_self) simp_all
  ultimately show ?thesis by blast
qed

theorem timezone_minutes_witness:
  "\<exists>z. ofc_time_get_timezone_impl (Some 19800) = Some z \<and> sint z = - 330"
  by (rule timezone_minutes) simp_all

text \<open>
  \<open>ofc_get_runtime_impl\<close>, whose result type is one of milliseconds, counts microseconds: for a
  process that used whole milliseconds it returns a thousand times their number.
\<close>

theorem runtime_in_microseconds:
  assumes "utime_usec r + stime_usec r = 1000 * u"
  shows "(ofc_get_runtime_impl 0 r :: 'm::len word) =
    1000 * word_of_int ((utime_sec r + stime_sec r) * 1000 + u)"
  using assms by (simp add: ofc_get_runtime_impl_def algebra_simps)

theorem runtime_in_microseconds_witness:
  "(ofc_get_runtime_impl 0 \<lparr>utime_sec = 2, utime_usec = 3000, stime_sec = 0, stime_usec = 4000\<rparr>
     :: 32 word) = 2007000"
  by (subst runtime_in_microseconds [where u = 7]) simp_all

end
