(* ===== verification/Sockaddr.thy ===== *)
theory Sockaddr
  imports Platform
begin

text \<open>
  Socket addresses as bytes (\<open>src/socket_darwin.c\<close>: \<open>make_sockaddr\<close>, \<open>unmake_sockaddr\<close>).

  A \<open>struct sockaddr_in\<close> of Darwin is 16 bytes (length, family, port, address, zeros), a
  \<open>struct sockaddr_in6\<close> 28 (length, family, port, flow info, address, scope). The macros of
  of_core that store 16 and 32 bit numbers in network order are the parameter \<open>N\<close>. The
  union in \<open>OFC_IPADDR\<close> is a record with both members, of which \<open>ip_version\<close> selects one.
\<close>

record net_api =
  OFC_NET_STON :: "u16 \<Rightarrow> u8 list"
  OFC_NET_NTOS :: "u8 list \<Rightarrow> u16"
  OFC_NET_LTON :: "u32 \<Rightarrow> u8 list"
  OFC_NET_NTOL :: "u8 list \<Rightarrow> u32"
  OFC_INADDR_ANY :: u32
  ofc_in6addr_any :: "u8 list \<times> u32"

text \<open>Storing and loading are inverse, of two and four bytes.\<close>

definition net_laws :: "net_api \<Rightarrow> bool" where
  "net_laws N \<longleftrightarrow>
     (\<forall>p. OFC_NET_NTOS N (OFC_NET_STON N p) = p \<and> length (OFC_NET_STON N p) = 2) \<and>
     (\<forall>a. OFC_NET_NTOL N (OFC_NET_LTON N a) = a \<and> length (OFC_NET_LTON N a) = 4)"

definition AF_INET :: u8 where "AF_INET = 2"
definition AF_INET6 :: u8 where "AF_INET6 = 30"

text \<open>\<open>sin6_scope_id\<close> is stored in the byte order of the machine.\<close>

definition le32 :: "u32 \<Rightarrow> u8 list" where
  "le32 v = [ucast v, ucast (drop_bit 8 v), ucast (drop_bit 16 v), ucast (drop_bit 24 v)]"

definition make_sockaddr :: "net_api \<Rightarrow> OFC_IPADDR \<Rightarrow> u16 \<Rightarrow> u8 list" where
  "make_sockaddr N ip port =
     (if ip_version ip = OFC_FAMILY_IP
      then [0, AF_INET] @ OFC_NET_STON N port @ OFC_NET_LTON N (ipv4_addr ip) @ replicate 8 0
      else [28, AF_INET6] @ OFC_NET_STON N port @ replicate 4 0 @
           map (\<lambda>i. s6_addr ip ! i) [0..<16] @ le32 (scope ip))"

definition sa_family :: "u8 list \<Rightarrow> u8" where
  "sa_family sa = sa ! 1"

text \<open>
  \<open>ip\<close> and \<open>port\<close> are pointers, \<open>None\<close> being null; the branch of an IPv4 address writes through
  them without a test.
\<close>

definition unmake_sockaddr ::
  "net_api \<Rightarrow> u8 list \<Rightarrow> OFC_IPADDR option \<Rightarrow> u16 option \<Rightarrow>
   (OFC_IPADDR option \<times> u16 option) option" where
  "unmake_sockaddr N sa ip port =
     (if sa_family sa = AF_INET then do {
        i \<leftarrow> ip;
        let i = i\<lparr>ip_version := OFC_FAMILY_IP\<rparr>;
        _ \<leftarrow> port;
        let p = OFC_NET_NTOS N (take 2 (drop 2 sa));
        Some (Some (i\<lparr>ipv4_addr := OFC_NET_NTOL N (take 4 (drop 4 sa))\<rparr>), Some p)
      }
      else
        Some (map_option (\<lambda>i. i\<lparr>ip_version := OFC_FAMILY_IPV6,
                               s6_addr := map (\<lambda>k. sa ! (8 + k)) [0..<16]\<rparr>) ip,
              map_option (\<lambda>_. OFC_NET_NTOS N (take 2 (drop 2 sa))) port))"

section \<open>Round trip\<close>

lemma length_make_sockaddr:
  "net_laws N \<Longrightarrow> length (make_sockaddr N ip port) =
    (if ip_version ip = OFC_FAMILY_IP then 16 else 28)"
  by (simp add: make_sockaddr_def net_laws_def le32_def)

lemma make_sockaddr_family:
  "sa_family (make_sockaddr N ip port) =
    (if ip_version ip = OFC_FAMILY_IP then AF_INET else AF_INET6)"
  by (simp add: make_sockaddr_def sa_family_def)

lemma upto16: "[0..<16] = [0, 1, 2, 3, 4, 5, 6, 7, 8, 9, 10, 11, 12, 13, 14, 15 :: nat]"
  by (simp add: upt_rec)

lemma list16: "length xs = 16 \<Longrightarrow> map (\<lambda>i. xs ! i) [0..<16] = xs"
  using map_nth [of xs] by simp

lemma sockaddr_parts:
  assumes "net_laws N"
  shows "take 2 (drop 2 (make_sockaddr N ip port)) = OFC_NET_STON N port"
    and "ip_version ip = OFC_FAMILY_IP \<Longrightarrow>
      take 4 (drop 4 (make_sockaddr N ip port)) = OFC_NET_LTON N (ipv4_addr ip)"
    and "ip_version ip \<noteq> OFC_FAMILY_IP \<Longrightarrow> k < 16 \<Longrightarrow>
      make_sockaddr N ip port ! (8 + k) = s6_addr ip ! k"
proof -
  have l: "length (OFC_NET_STON N port) = 2" "length (OFC_NET_LTON N (ipv4_addr ip)) = 4"
    using assms by (simp_all add: net_laws_def)
  show "take 2 (drop 2 (make_sockaddr N ip port)) = OFC_NET_STON N port"
    using l by (simp add: make_sockaddr_def)
  show "take 4 (drop 4 (make_sockaddr N ip port)) = OFC_NET_LTON N (ipv4_addr ip)"
    if "ip_version ip = OFC_FAMILY_IP" using l that by (simp add: make_sockaddr_def numeral_eq_Suc)
  show "make_sockaddr N ip port ! (8 + k) = s6_addr ip ! k"
    if "ip_version ip \<noteq> OFC_FAMILY_IP" "k < 16"
    using l that by (simp add: make_sockaddr_def nth_append)
qed

text \<open>A big-endian instance, for the witnesses.\<close>

definition demo_net :: net_api where
  "demo_net = \<lparr>OFC_NET_STON = (\<lambda>p. [ucast (drop_bit 8 p), ucast p]),
     OFC_NET_NTOS = (\<lambda>bs. push_bit 8 (ucast (bs ! 0)) OR ucast (bs ! 1)),
     OFC_NET_LTON = (\<lambda>a. [ucast (drop_bit 24 a), ucast (drop_bit 16 a), ucast (drop_bit 8 a), ucast a]),
     OFC_NET_NTOL = (\<lambda>bs. push_bit 24 (ucast (bs ! 0)) OR push_bit 16 (ucast (bs ! 1)) OR
       push_bit 8 (ucast (bs ! 2)) OR ucast (bs ! 3)),
     OFC_INADDR_ANY = 0, ofc_in6addr_any = (replicate 16 0, 0)\<rparr>"

lemma demo_net_laws: "net_laws demo_net"
proof -
  have "push_bit 8 (ucast (ucast (drop_bit 8 p) :: u8)) OR ucast (ucast p :: u8) = p" for p :: u16
    by (rule bit_word_eqI) (auto simp: bit_simps)
  moreover have "push_bit 24 (ucast (ucast (drop_bit 24 a) :: u8)) OR
      push_bit 16 (ucast (ucast (drop_bit 16 a) :: u8)) OR
      push_bit 8 (ucast (ucast (drop_bit 8 a) :: u8)) OR ucast (ucast a :: u8) = a" for a :: u32
  proof (rule bit_word_eqI)
    fix n assume "n < LENGTH(32)"
    then show "bit ((push_bit 24 (ucast (ucast (drop_bit 24 a) :: u8)) :: u32) OR
      push_bit 16 (ucast (ucast (drop_bit 16 a) :: u8)) OR
      push_bit 8 (ucast (ucast (drop_bit 8 a) :: u8)) OR ucast (ucast a :: u8)) n = bit a n"
      by (cases "n < 8"; cases "n < 16"; cases "n < 24") (auto simp: bit_simps)
  qed
  ultimately show ?thesis by (simp add: net_laws_def demo_net_def)
qed

text \<open>
  C24: \<open>unmake_sockaddr\<close> reads back what \<open>make_sockaddr\<close> wrote: the port, the family, and the IPv4
  address or the 16 bytes of the IPv6 address; the IPv6 scope is written but never read back, so
  the scope of the result is whatever the target held before.
\<close>

theorem sockaddr_roundtrip:
  assumes "net_laws N" and "length (s6_addr ip) = 16"
  shows "\<exists>i. unmake_sockaddr N (make_sockaddr N ip port) (Some old) (Some p) = Some (Some i, Some port) \<and>
    (ip_version ip = OFC_FAMILY_IP \<longrightarrow> ip_version i = OFC_FAMILY_IP \<and> ipv4_addr i = ipv4_addr ip) \<and>
    (ip_version ip \<noteq> OFC_FAMILY_IP \<longrightarrow> ip_version i = OFC_FAMILY_IPV6 \<and> s6_addr i = s6_addr ip) \<and>
    scope i = scope old"
proof -
  have p: "OFC_NET_NTOS N (OFC_NET_STON N port) = port"
    and a: "OFC_NET_NTOL N (OFC_NET_LTON N (ipv4_addr ip)) = ipv4_addr ip"
    using assms(1) by (simp_all add: net_laws_def)
  have "map (\<lambda>k. make_sockaddr N ip port ! (8 + k)) [0..<16] = s6_addr ip"
    if "ip_version ip \<noteq> OFC_FAMILY_IP"
    using sockaddr_parts(3) [OF assms(1) that] list16 [OF assms(2)] by (metis (no_types, lifting) atLeastLessThan_iff map_eq_conv set_upt)
  then show ?thesis
    by (auto simp: unmake_sockaddr_def make_sockaddr_family sockaddr_parts(1,2) [OF assms(1)] p a
        AF_INET_def AF_INET6_def)
qed

theorem sockaddr_roundtrip_witness:
  "\<exists>i. unmake_sockaddr demo_net (make_sockaddr demo_net
       \<lparr>ip_version = OFC_FAMILY_IPV6, ipv4_addr = 0, s6_addr = replicate 16 254, scope = 7\<rparr> 445)
       (Some \<lparr>ip_version = OFC_FAMILY_IP, ipv4_addr = 5, s6_addr = replicate 16 0, scope = 0\<rparr>) (Some 0) =
     Some (Some i, Some 445) \<and> s6_addr i = replicate 16 254 \<and> scope i = 0"
  using sockaddr_roundtrip [OF demo_net_laws,
      of "\<lparr>ip_version = OFC_FAMILY_IPV6, ipv4_addr = 0, s6_addr = replicate 16 254, scope = 7\<rparr>" 445
        "\<lparr>ip_version = OFC_FAMILY_IP, ipv4_addr = 5, s6_addr = replicate 16 0, scope = 0\<rparr>" 0] by auto

end
