(* ===== verification/Socket_Darwin.thy ===== *)
theory Socket_Darwin
  imports Socket_Events Sockaddr
begin

text \<open>
  Sockets (\<open>src/socket_darwin.c\<close>): the operations that make, name, connect, move data over and
  close a socket. System calls go through \<open>syscall\<close>, so \<open>calls\<close> lists them with their arguments
  in order, and the kernel \<open>K\<close> answers each with a value, \<open>errno\<close> and bytes; log lines are
  recorded in the same list. The buffers the operations allocate for an address are values here
  (their allocation is taken to succeed).

  \<open>OFC_SIZET\<close> is 64 bits wide; whether of_core declares it signed is the parameter \<open>sg\<close>,
  on which the tests \<open>status >= 0\<close> depend.
\<close>

datatype socket_type = SOCKET_TYPE_STREAM | SOCKET_TYPE_DGRAM | SOCKET_TYPE_ICMP | SOCKET_TYPE_OTHER

section \<open>Constants of Darwin\<close>

definition EAGAIN :: int where "EAGAIN = 35"
definition EINPROGRESS :: int where "EINPROGRESS = 36"
definition O_NONBLOCK :: int where "O_NONBLOCK = 4"

definition INET :: int where "INET = 2"
definition INET6 :: int where "INET6 = 30"

fun stype_of :: "socket_type \<Rightarrow> int" where
  "stype_of SOCKET_TYPE_STREAM = 1"
| "stype_of SOCKET_TYPE_ICMP = 3"
| "stype_of _ = 2"

fun proto_of :: "socket_type \<Rightarrow> family \<Rightarrow> int" where
  "proto_of SOCKET_TYPE_STREAM v = 6"
| "proto_of SOCKET_TYPE_ICMP v = (if v = OFC_FAMILY_IP then 1 else 58)"
| "proto_of _ v = 17"

section \<open>Creating and destroying\<close>

text \<open>
  \<open>m\<close> is what \<open>ofc_malloc\<close> returned, \<open>g\<close> the bytes the new cell held. The cell is freed when
  \<open>socket\<close> fails.
\<close>

definition ofc_socket_impl_create ::
  "'h core_api \<Rightarrow> kernel \<Rightarrow> net_api \<Rightarrow> family \<Rightarrow> socket_type \<Rightarrow> addr option \<Rightarrow> OFC_SOCKET_IMPL \<Rightarrow>
   'h world \<Rightarrow> handle \<times> 'h world" where
  "ofc_socket_impl_create C K N family socktype m g w =
     (case m of
        None \<Rightarrow> (OFC_HANDLE_NULL, w)
      | Some a \<Rightarrow>
          let ip = (if family = OFC_FAMILY_IP
                    then (sk_ip g)\<lparr>ip_version := OFC_FAMILY_IP, ipv4_addr := OFC_INADDR_ANY N\<rparr>
                    else (sk_ip g)\<lparr>ip_version := OFC_FAMILY_IPV6, s6_addr := fst (ofc_in6addr_any N),
                                  scope := snd (ofc_in6addr_any N)\<rparr>);
              fam = (if family = OFC_FAMILY_IP then INET else INET6);
              (r, w) = syscall K (Sys_socket fam (stype_of socktype) (proto_of socktype (ip_version ip))) w
          in if r_ret r < 0
             then (OFC_HANDLE_NULL,
                   (snd (syscall K (Ofc_log ''socket error: %s, errno %d'' [fam, r_errno r]) w))
                     \<lparr>sk_cells := (sk_cells w)(a := None)\<rparr>)
             else
               let w = (if socktype = SOCKET_TYPE_DGRAM
                        then snd (syscall K (Sys_setsockopt (r_ret r) SO_BROADCAST 1) w) else w);
                   w = snd (syscall K (Sys_setsockopt (r_ret r) SO_NOSIGPIPE 1) w);
                   w = w\<lparr>sk_cells := (sk_cells w)
                          (a \<mapsto> \<lparr>sk_socket = r_ret r, sk_family = family, sk_events = 0, sk_revents = 0,
                                 sk_ip = ip\<rparr>)\<rparr>;
                   (h, s) = ofc_handle_create C OFC_HANDLE_SOCKET_IMPL a (core w)
               in (h, w\<lparr>core := s\<rparr>))"

definition ofc_socket_impl_destroy ::
  "'h core_api \<Rightarrow> kernel \<Rightarrow> handle \<Rightarrow> 'h world \<Rightarrow> 'h world option" where
  "ofc_socket_impl_destroy C K h w =
     (case lock_h C h w of
        (None, w) \<Rightarrow> Some w
      | (Some a, w) \<Rightarrow> do {
          sk \<leftarrow> sk_cells w a;
          let w = (if sk_socket sk \<ge> 0 then snd (syscall K (Sys_close (sk_socket sk)) w) else w);
          let w = w\<lparr>sk_cells := (sk_cells w)(a := None)\<rparr>;
          let w = destroy_h C h w;
          Some (unlock_h C h w)
        })"

section \<open>The bracket\<close>

text \<open>
  Every other operation has the same frame: lock the handle, answer \<open>r\<close> if it is dead, work on
  the cell, unlock.
\<close>

type_synonym ('h, 'r) sock_body = "addr \<Rightarrow> OFC_SOCKET_IMPL \<Rightarrow> 'h world \<Rightarrow> ('r \<times> 'h world) option"

definition on_socket ::
  "'h core_api \<Rightarrow> handle \<Rightarrow> 'r \<Rightarrow> ('h, 'r) sock_body \<Rightarrow> 'h world \<Rightarrow> ('r \<times> 'h world) option" where
  "on_socket C h r f w =
     (case lock_h C h w of
        (None, w) \<Rightarrow> Some (r, w)
      | (Some a, w) \<Rightarrow> do {
          sk \<leftarrow> sk_cells w a;
          (x, w) \<leftarrow> f a sk w;
          Some (x, unlock_h C h w)
        })"

section \<open>Names and connections\<close>

definition be16 :: "u8 list \<Rightarrow> int" where
  "be16 bs = uint (bs ! 0) * 256 + uint (bs ! 1)"

definition le_int :: "u8 list \<Rightarrow> int" where
  "le_int bs = foldr (\<lambda>b n. uint b + 256 * n) bs 0"

text \<open>The three log lines of a failed \<open>bind\<close>, their numbers only.\<close>

definition bind_log :: "u8 list \<Rightarrow> int list" where
  "bind_log sa =
     (if sa_family sa = AF_INET then [uint (sa ! 1), be16 (drop 2 sa)]
      else [uint (sa ! 0), uint (sa ! 1), be16 (drop 2 sa), le_int (take 4 (drop 4 sa)),
            le_int (take 4 (drop 24 sa))])"

definition bind_body :: "kernel \<Rightarrow> net_api \<Rightarrow> OFC_IPADDR \<Rightarrow> u16 \<Rightarrow> ('h, bool) sock_body" where
  "bind_body K N ip port a sk w =
     (let sa = make_sockaddr N ip port;
          (r, w) = syscall K (Sys_bind (sk_socket sk) sa) w
      in if r_ret r = 0 then Some (True, w)
         else let w = snd (syscall K (Ofc_log ''Bind Error: %.80s'' [r_errno r]) w);
                  w = snd (syscall K (Ofc_log ''family, port, addr'' (bind_log sa)) w)
              in Some (False, w))"

definition ofc_socket_impl_bind ::
  "'h core_api \<Rightarrow> kernel \<Rightarrow> net_api \<Rightarrow> handle \<Rightarrow> OFC_IPADDR \<Rightarrow> u16 \<Rightarrow> 'h world \<Rightarrow>
   (bool \<times> 'h world) option" where
  "ofc_socket_impl_bind C K N h ip port = on_socket C h False (bind_body K N ip port)"

definition close_body :: "kernel \<Rightarrow> ('h, bool) sock_body" where
  "close_body K a sk w =
     (let w = snd (syscall K (Sys_close (sk_socket sk)) w)
      in Some (True, w\<lparr>sk_cells := (sk_cells w)(a \<mapsto> sk\<lparr>sk_socket := -1\<rparr>)\<rparr>))"

definition ofc_socket_impl_close ::
  "'h core_api \<Rightarrow> kernel \<Rightarrow> handle \<Rightarrow> 'h world \<Rightarrow> (bool \<times> 'h world) option" where
  "ofc_socket_impl_close C K h = on_socket C h False (close_body K)"

definition connect_body :: "kernel \<Rightarrow> net_api \<Rightarrow> OFC_IPADDR \<Rightarrow> u16 \<Rightarrow> ('h, bool) sock_body" where
  "connect_body K N ip port a sk w =
     (let (r, w) = syscall K (Sys_connect (sk_socket sk) (make_sockaddr N ip port)) w
      in Some ((r_ret r \<noteq> 0 \<and> r_errno r = EINPROGRESS) \<or> r_ret r = 0, w))"

definition ofc_socket_impl_connect ::
  "'h core_api \<Rightarrow> kernel \<Rightarrow> net_api \<Rightarrow> handle \<Rightarrow> OFC_IPADDR \<Rightarrow> u16 \<Rightarrow> 'h world \<Rightarrow>
   (bool \<times> 'h world) option" where
  "ofc_socket_impl_connect C K N h ip port = on_socket C h False (connect_body K N ip port)"

text \<open>A call whose result is only compared with -1.\<close>

definition checked_body :: "kernel \<Rightarrow> (int \<Rightarrow> call) \<Rightarrow> ('h, bool) sock_body" where
  "checked_body K c a sk w =
     (let (r, w) = syscall K (c (sk_socket sk)) w in Some (r_ret r \<noteq> -1, w))"

definition ofc_socket_impl_listen ::
  "'h core_api \<Rightarrow> kernel \<Rightarrow> handle \<Rightarrow> int \<Rightarrow> 'h world \<Rightarrow> (bool \<times> 'h world) option" where
  "ofc_socket_impl_listen C K h backlog =
     on_socket C h False (checked_body K (\<lambda>s. Sys_listen s backlog))"

definition ofc_socket_impl_reuse_addr ::
  "'h core_api \<Rightarrow> kernel \<Rightarrow> handle \<Rightarrow> int \<Rightarrow> 'h world \<Rightarrow> (bool \<times> 'h world) option" where
  "ofc_socket_impl_reuse_addr C K h onoff =
     on_socket C h False (checked_body K (\<lambda>s. Sys_setsockopt s SO_REUSEPORT onoff))"

definition ofc_socket_impl_connected ::
  "'h core_api \<Rightarrow> kernel \<Rightarrow> handle \<Rightarrow> 'h world \<Rightarrow> (bool \<times> 'h world) option" where
  "ofc_socket_impl_connected C K h = on_socket C h False (checked_body K Sys_getpeername)"

text \<open>What the kernel stores in an address buffer of 28 bytes that held \<open>old\<close>.\<close>

definition fill :: "u8 list \<Rightarrow> u8 list \<Rightarrow> u8 list" where
  "fill old bs = take 28 bs @ drop (length (take 28 bs)) old"

text \<open>
  Accepting: \<open>m\<close> is the allocation of the new cell, \<open>g\<close> its old bytes, \<open>buf\<close> the old bytes of the
  address buffer. The results are the new handle and what \<open>ip\<close> and \<open>port\<close> point to.
\<close>

definition accept_body ::
  "'h core_api \<Rightarrow> kernel \<Rightarrow> net_api \<Rightarrow> addr option \<Rightarrow> OFC_SOCKET_IMPL \<Rightarrow> u8 list \<Rightarrow>
   OFC_IPADDR option \<Rightarrow> u16 option \<Rightarrow> ('h, handle \<times> OFC_IPADDR option \<times> u16 option) sock_body" where
  "accept_body C K N m g buf ip port a sk w = do {
     b \<leftarrow> m;
     let (r, w) = syscall K (Sys_accept (sk_socket sk)) w;
     if r_ret r \<noteq> -1 then do {
       let w = snd (syscall K (Sys_setsockopt (sk_socket sk) SO_NOSIGPIPE 1) w);
       (ip, port) \<leftarrow> unmake_sockaddr N (fill buf (r_bytes r)) ip port;
       let w = w\<lparr>sk_cells := (sk_cells w)(b \<mapsto> g\<lparr>sk_socket := r_ret r\<rparr>)\<rparr>;
       let (h, s) = ofc_handle_create C OFC_HANDLE_SOCKET_IMPL b (core w);
       Some ((h, ip, port), w\<lparr>core := s\<rparr>)
     } else Some ((OFC_HANDLE_NULL, ip, port), w\<lparr>sk_cells := (sk_cells w)(b := None)\<rparr>)
   }"

definition ofc_socket_impl_accept ::
  "'h core_api \<Rightarrow> kernel \<Rightarrow> net_api \<Rightarrow> addr option \<Rightarrow> OFC_SOCKET_IMPL \<Rightarrow> u8 list \<Rightarrow> handle \<Rightarrow>
   OFC_IPADDR option \<Rightarrow> u16 option \<Rightarrow> 'h world \<Rightarrow>
   ((handle \<times> OFC_IPADDR option \<times> u16 option) \<times> 'h world) option" where
  "ofc_socket_impl_accept C K N m g buf h ip port =
     on_socket C h (OFC_HANDLE_NULL, ip, port) (accept_body C K N m g buf ip port)"

text \<open>The flag of \<open>no_block\<close> is an argument of the operation that the body does not use.\<close>

definition no_block_body :: "kernel \<Rightarrow> bool \<Rightarrow> ('h, bool) sock_body" where
  "no_block_body K onoff a sk w =
     (let (r, w) = syscall K (Sys_fcntl_getfl (sk_socket sk)) w
      in if r_ret r \<ge> 0
         then Some (True, snd (syscall K (Sys_fcntl_setfl (sk_socket sk) (r_ret r OR O_NONBLOCK)) w))
         else Some (False, w))"

definition ofc_socket_impl_no_block ::
  "'h core_api \<Rightarrow> kernel \<Rightarrow> handle \<Rightarrow> bool \<Rightarrow> 'h world \<Rightarrow> (bool \<times> 'h world) option" where
  "ofc_socket_impl_no_block C K h onoff = on_socket C h False (no_block_body K onoff)"

section \<open>Moving data\<close>

text \<open>\<open>(int) len\<close> as the system call receives it: cut to 32 bits and sign-extended.\<close>

definition int_len :: "u64 \<Rightarrow> u64" where
  "int_len len = scast (ucast len :: u32)"

text \<open>\<open>status >= 0\<close> on an \<open>OFC_SIZET\<close>.\<close>

definition size_ge0 :: "bool \<Rightarrow> u64 \<Rightarrow> bool" where
  "size_ge0 sg status \<longleftrightarrow> (if sg then 0 \<le> sint status else True)"

definition io_result :: "bool \<Rightarrow> reply \<Rightarrow> u64" where
  "io_result sg r =
     (let status = word_of_int (r_ret r)
      in if status = -1 \<and> r_errno r = EAGAIN then 0
         else if size_ge0 sg status then status
         else -1)"

definition ofc_socket_impl_send ::
  "'h core_api \<Rightarrow> kernel \<Rightarrow> bool \<Rightarrow> handle \<Rightarrow> u8 list \<Rightarrow> u64 \<Rightarrow> 'h world \<Rightarrow> (u64 \<times> 'h world) option" where
  "ofc_socket_impl_send C K sg h buf len =
     on_socket C h (-1) (\<lambda>a sk w.
       let (r, w) = syscall K (Sys_send (sk_socket sk) buf (int_len len)) w
       in Some (io_result sg r, w))"

text \<open>Receiving: the bytes stored in the buffer are the second result.\<close>

definition ofc_socket_impl_recv ::
  "'h core_api \<Rightarrow> kernel \<Rightarrow> bool \<Rightarrow> handle \<Rightarrow> u64 \<Rightarrow> 'h world \<Rightarrow> ((u64 \<times> u8 list) \<times> 'h world) option" where
  "ofc_socket_impl_recv C K sg h len =
     on_socket C h (-1, []) (\<lambda>a sk w.
       let (r, w) = syscall K (Sys_recv (sk_socket sk) (int_len len)) w
       in Some ((io_result sg r, r_bytes r), w))"

text \<open>
  \<open>recvfrom\<close> answers two byte strings, the data and the sender's address; \<open>split_at\<close> says how many
  of \<open>r_bytes\<close> are data.
\<close>

definition recv_from_body ::
  "kernel \<Rightarrow> net_api \<Rightarrow> bool \<Rightarrow> (reply \<Rightarrow> nat) \<Rightarrow> u64 \<Rightarrow> OFC_IPADDR option \<Rightarrow> u16 option \<Rightarrow>
   ('h, u64 \<times> u8 list \<times> OFC_IPADDR option \<times> u16 option) sock_body" where
  "recv_from_body K N sg split_at len ip port a sk w =
     (let (r, w) = syscall K (Sys_recvfrom (sk_socket sk) (int_len len)) w;
          status = word_of_int (r_ret r);
          data = take (split_at r) (r_bytes r);
          sa = fill (replicate 28 0) (drop (split_at r) (r_bytes r))
      in if status = -1 \<and> r_errno r = EAGAIN then Some ((0, data, ip, port), w)
         else if size_ge0 sg status then do {
           (ip, port) \<leftarrow> unmake_sockaddr N sa ip port;
           Some ((status, data, ip, port), w)
         }
         else Some ((-1, data, ip, port), w))"

definition ofc_socket_impl_recv_from ::
  "'h core_api \<Rightarrow> kernel \<Rightarrow> net_api \<Rightarrow> bool \<Rightarrow> (reply \<Rightarrow> nat) \<Rightarrow> handle \<Rightarrow> u64 \<Rightarrow> OFC_IPADDR option \<Rightarrow>
   u16 option \<Rightarrow> 'h world \<Rightarrow> ((u64 \<times> u8 list \<times> OFC_IPADDR option \<times> u16 option) \<times> 'h world) option" where
  "ofc_socket_impl_recv_from C K N sg split_at h len ip port =
     on_socket C h (-1, [], ip, port) (recv_from_body K N sg split_at len ip port)"

section \<open>Addresses and sizes\<close>

record OFC_SOCKADDR =
  sin_family :: family
  sin_port :: u16
  sin_addr :: OFC_IPADDR

definition family_of_sa :: "u8 list \<Rightarrow> family" where
  "family_of_sa sa = (if sa_family sa = AF_INET then OFC_FAMILY_IP else OFC_FAMILY_IPV6)"

text \<open>Storing an address in an \<open>OFC_SOCKADDR\<close>.\<close>

definition store_sockaddr :: "net_api \<Rightarrow> u8 list \<Rightarrow> OFC_SOCKADDR \<Rightarrow> OFC_SOCKADDR option" where
  "store_sockaddr N sa s = do {
     (ip, port) \<leftarrow> unmake_sockaddr N sa (Some (sin_addr s)) (Some (sin_port s));
     i \<leftarrow> ip;
     p \<leftarrow> port;
     Some (s\<lparr>sin_family := family_of_sa sa, sin_addr := i, sin_port := p\<rparr>)
   }"

definition get_addresses_body ::
  "kernel \<Rightarrow> net_api \<Rightarrow> u8 list \<Rightarrow> OFC_SOCKADDR \<Rightarrow> OFC_SOCKADDR \<Rightarrow>
   ('h, bool \<times> OFC_SOCKADDR \<times> OFC_SOCKADDR) sock_body" where
  "get_addresses_body K N buf l r a sk w =
     (let (x, w) = syscall K (Sys_getsockname (sk_socket sk)) w
      in if r_ret x = 0 then do {
           l \<leftarrow> store_sockaddr N (fill buf (r_bytes x)) l;
           let (y, w) = syscall K (Sys_getpeername (sk_socket sk)) w;
           if r_ret y = 0 then do {
             r \<leftarrow> store_sockaddr N (fill buf (r_bytes y)) r;
             Some ((True, l, r), w)
           } else Some ((False, l, r), w)
         } else Some ((False, l, r), w))"

definition ofc_socket_impl_get_addresses ::
  "'h core_api \<Rightarrow> kernel \<Rightarrow> net_api \<Rightarrow> u8 list \<Rightarrow> handle \<Rightarrow> OFC_SOCKADDR \<Rightarrow> OFC_SOCKADDR \<Rightarrow>
   'h world \<Rightarrow> ((bool \<times> OFC_SOCKADDR \<times> OFC_SOCKADDR) \<times> 'h world) option" where
  "ofc_socket_impl_get_addresses C K N buf h l r =
     on_socket C h (False, l, r) (get_addresses_body K N buf l r)"

text \<open>
  Sending to an address. On an error the addresses of the socket are read for the log; \<open>l\<close> and
  \<open>r\<close> are the old bytes of the local variables they are read into.
\<close>

definition sendto_body ::
  "'h core_api \<Rightarrow> kernel \<Rightarrow> net_api \<Rightarrow> bool \<Rightarrow> u8 list \<Rightarrow> OFC_SOCKADDR \<Rightarrow> OFC_SOCKADDR \<Rightarrow> handle \<Rightarrow>
   u8 list \<Rightarrow> u64 \<Rightarrow> OFC_IPADDR \<Rightarrow> u16 \<Rightarrow> ('h, u64) sock_body" where
  "sendto_body C K N sg abuf l r h buf len ip port a sk w =
     (let (x, w) = syscall K (Sys_sendto (sk_socket sk) buf (int_len len) (make_sockaddr N ip port)) w;
          status = word_of_int (r_ret x)
      in if status = -1 \<and> r_errno x = EAGAIN then Some (0, w)
         else if size_ge0 sg status then Some (status, w)
         else do {
           let w = snd (syscall K (Ofc_log ''Sendto Error: %.80s'' [r_errno x]) w);
           (_, w) \<leftarrow> ofc_socket_impl_get_addresses C K N abuf h l r w;
           let w = snd (syscall K (Ofc_log ''status, len'' [sint status, uint len]) w);
           Some (-1, w)
         })"

definition ofc_socket_impl_sendto ::
  "'h core_api \<Rightarrow> kernel \<Rightarrow> net_api \<Rightarrow> bool \<Rightarrow> u8 list \<Rightarrow> OFC_SOCKADDR \<Rightarrow> OFC_SOCKADDR \<Rightarrow> handle \<Rightarrow>
   u8 list \<Rightarrow> u64 \<Rightarrow> OFC_IPADDR \<Rightarrow> u16 \<Rightarrow> 'h world \<Rightarrow> (u64 \<times> 'h world) option" where
  "ofc_socket_impl_sendto C K N sg abuf l r h buf len ip port =
     on_socket C h (-1) (sendto_body C K N sg abuf l r h buf len ip port)"

definition size_body :: "kernel \<Rightarrow> sockopt \<Rightarrow> int \<Rightarrow> ('h, unit) sock_body" where
  "size_body K opt sz a sk w = Some ((), snd (syscall K (Sys_setsockopt (sk_socket sk) opt sz) w))"

definition ofc_socket_impl_set_send_size ::
  "'h core_api \<Rightarrow> kernel \<Rightarrow> handle \<Rightarrow> int \<Rightarrow> 'h world \<Rightarrow> (unit \<times> 'h world) option" where
  "ofc_socket_impl_set_send_size C K h sz = on_socket C h () (size_body K SO_SNDBUF sz)"

definition ofc_socket_impl_set_recv_size ::
  "'h core_api \<Rightarrow> kernel \<Rightarrow> handle \<Rightarrow> int \<Rightarrow> 'h world \<Rightarrow> (unit \<times> 'h world) option" where
  "ofc_socket_impl_set_recv_size C K h sz = on_socket C h () (size_body K SO_RCVBUF sz)"

end
