(* ===== verification/Socket_Correct.thy ===== *)
theory Socket_Correct
  imports Socket_Darwin Demo_Core
begin

text \<open>
  What the socket operations of \<open>src/socket_darwin.c\<close> do: the interface between a body and its
  bracket, the calls each operation makes, the results it gives, and the life of a socket.
\<close>

lemma syscall_sel [simp]:
  "fst (syscall K c w) = K (calls w) c" "snd (syscall K c w) = w\<lparr>calls := calls w @ [c]\<rparr>"
  by (simp_all add: syscall_def)

section \<open>The bracket and its bodies\<close>

text \<open>What an operation on the cell at \<open>a\<close> may change: that cell, and the list of system calls.\<close>

definition beside :: "addr \<Rightarrow> 'h world \<Rightarrow> 'h world \<Rightarrow> bool" where
  "beside a w v \<longleftrightarrow> core v = core w \<and> (\<forall>b. b \<noteq> a \<longrightarrow> sk_cells v b = sk_cells w b) \<and>
     ev_cells v = ev_cells w \<and> ws_cells v = ws_cells w \<and> dws_cells v = dws_cells w \<and>
     th_cells v = th_cells w \<and> fds v = fds w \<and> pipes v = pipes w"

lemma beside_calls [simp]: "beside a w (w\<lparr>calls := cs\<rparr>)"
  by (simp add: beside_def)

lemma beside_cell [simp]: "beside a w (w\<lparr>calls := cs, sk_cells := (sk_cells w)(a \<mapsto> sk)\<rparr>)"
  by (simp add: beside_def)

text \<open>The same for the operation on a handle.\<close>

definition untouched :: "'h core_api \<Rightarrow> handle \<Rightarrow> 'h world \<Rightarrow> 'h world \<Rightarrow> bool" where
  "untouched C h w v \<longleftrightarrow> core v = core w \<and>
     (\<forall>b. deref C h (core w) \<noteq> Some b \<longrightarrow> sk_cells v b = sk_cells w b) \<and>
     ev_cells v = ev_cells w \<and> ws_cells v = ws_cells w \<and> dws_cells v = dws_cells w \<and>
     th_cells v = th_cells w \<and> fds v = fds w \<and> pipes v = pipes w"

lemma untouched_refl [simp]: "untouched C h w w"
  by (simp add: untouched_def)

lemma untouched_trans [trans]: "untouched C h u v \<Longrightarrow> untouched C h v w \<Longrightarrow> untouched C h u w"
  by (simp add: untouched_def)

lemma untouched_write: "untouched C h w (sk_write C h f w)"
  by (simp add: untouched_def frame) (simp add: sk_write_def split: option.split)

text \<open>
  A body works under the lock of its handle: it must not depend on the lock counts, only on what
  handles name, and must leave everything beside its cell as it finds it.
\<close>

locale under_lock =
  fixes C :: "'h core_api" and f :: "('h, 'r) sock_body"
  assumes swap: "handle_laws C \<Longrightarrow> core_reads C s = core_reads C (core w) \<Longrightarrow>
      f a sk (w\<lparr>core := s\<rparr>) = map_option (map_prod id (\<lambda>v. v\<lparr>core := s\<rparr>)) (f a sk w)"
    and confined: "handle_laws C \<Longrightarrow> f a sk w = Some (x, v) \<Longrightarrow> beside a w v"
begin

lemma keeps: "handle_laws C \<Longrightarrow> f a sk w = Some (x, v) \<Longrightarrow> core v = core w"
  using confined unfolding beside_def by blast

lemma live:
  assumes "handle_laws C" and "deref C h (core w) = Some a" and "sk_cells w a = Some sk"
  shows "on_socket C h r f w = f a sk w"
proof -
  let ?s = "snd (ofc_handle_lock C h (core w))"
  have "f a sk (w\<lparr>core := ?s\<rparr>) = map_option (map_prod id (\<lambda>v. v\<lparr>core := ?s\<rparr>)) (f a sk w)"
    by (rule swap [OF assms(1)]) (rule handle_lawsD(3) [OF assms(1)])
  moreover have "v\<lparr>core := core w\<rparr> = v" if "f a sk w = Some (x, v)" for x v
    using keeps [OF assms(1) that] by (metis world.surjective world.update_convs(1))
  ultimately show ?thesis
    using assms by (cases "f a sk w")
      (auto simp: on_socket_def lock_h_eq unlock_h_def unlock_after_lock)
qed

lemma dead: "handle_laws C \<Longrightarrow> deref C h (core w) = None \<Longrightarrow> on_socket C h r f w = Some (r, w)"
  by (simp add: on_socket_def lock_h_None)

text \<open>An operation that returns found its handle dead, or ran its body on the cell.\<close>

lemma on_socket_cases:
  assumes "handle_laws C" and "on_socket C h r f w = Some (x, w')"
  shows "w' = w \<or> (\<exists>a sk. deref C h (core w) = Some a \<and> sk_cells w a = Some sk \<and> f a sk w = Some (x, w'))"
proof (cases "deref C h (core w)")
  case None
  with assms dead show ?thesis by simp
next
  case (Some a)
  moreover have "sk_cells w a \<noteq> None" using Some assms(2) by (auto simp: on_socket_def lock_h_eq elim!: bind_SomeE)
  ultimately show ?thesis using live [OF assms(1)] assms(2) by auto
qed

lemma balanced:
  assumes "handle_laws C" and "on_socket C h r f w = Some (x, w')"
  shows "untouched C h w w'"
  using on_socket_cases [OF assms]
proof (elim disjE exE conjE)
  fix a sk
  assume "deref C h (core w) = Some a" and "f a sk w = Some (x, w')"
  then show ?thesis using confined [OF assms(1)] by (simp add: beside_def untouched_def)
qed simp

lemma on_socket_swap:
  assumes "handle_laws C" and "core_reads C s = core_reads C (core w)"
  shows "on_socket C h r f (w\<lparr>core := s\<rparr>) =
    map_option (map_prod id (\<lambda>v. v\<lparr>core := s\<rparr>)) (on_socket C h r f w)"
proof -
  have d: "deref C h s = deref C h (core w)" by (rule core_reads_eqD(1) [OF assms(2)])
  show ?thesis
  proof (cases "deref C h (core w)")
    case None
    with d show ?thesis by (simp add: dead [OF assms(1)])
  next
    case (Some a)
    with d show ?thesis
    proof (cases "sk_cells w a")
      case None
      with Some d show ?thesis by (simp add: on_socket_def lock_h_eq)
    next
      case (Some sk)
      with \<open>deref C h (core w) = Some a\<close> d show ?thesis
        by (simp add: live [OF assms(1)] swap [OF assms])
    qed
  qed
qed

end

lemmas body_defs = bind_body_def close_body_def connect_body_def checked_body_def no_block_body_def
  recv_from_body_def size_body_def get_addresses_body_def

interpretation bind_op: under_lock C "bind_body K N ip port" for C K N ip port
  by unfold_locales (auto simp: body_defs Let_def syscall_def split: if_splits)

interpretation close_op: under_lock C "close_body K" for C K
  by unfold_locales (auto simp: body_defs Let_def syscall_def)

interpretation connect_op: under_lock C "connect_body K N ip port" for C K N ip port
  by unfold_locales (auto simp: body_defs Let_def syscall_def)

interpretation checked_op: under_lock C "checked_body K c" for C K c
  by unfold_locales (auto simp: body_defs Let_def syscall_def)

interpretation no_block_op: under_lock C "no_block_body K b" for C K b
  by unfold_locales (auto simp: body_defs Let_def syscall_def split: if_splits)

interpretation size_op: under_lock C "size_body K opt sz" for C K opt sz
  by unfold_locales (auto simp: body_defs Let_def syscall_def)

interpretation send_op: under_lock C "\<lambda>a sk w.
    let (r, w) = syscall K (Sys_send (sk_socket sk) buf n) w in Some (io_result sg r, w)"
  for C K sg buf n
  by unfold_locales (auto simp: Let_def syscall_def)

interpretation recv_op: under_lock C "\<lambda>a sk w.
    let (r, w) = syscall K (Sys_recv (sk_socket sk) n) w in Some ((io_result sg r, r_bytes r), w)"
  for C K sg n
  by unfold_locales (auto simp: Let_def syscall_def)

interpretation recv_from_op: under_lock C "recv_from_body K N sg sp n ip port" for C K N sg sp n ip port
proof
  show "recv_from_body K N sg sp n ip port a sk (w\<lparr>core := s\<rparr>) =
      map_option (map_prod id (\<lambda>v. v\<lparr>core := s\<rparr>)) (recv_from_body K N sg sp n ip port a sk w)"
    for s a sk and w :: "'a world"
    by (auto simp: recv_from_body_def Let_def syscall_def split: Option.bind_splits)
  show "beside a w v" if "recv_from_body K N sg sp n ip port a sk w = Some (x, v)"
    for a sk x v and w :: "'a world"
    using that by (auto simp: recv_from_body_def Let_def syscall_def split: if_splits elim!: bind_SomeE)
qed

lemma get_addresses_talks:
  "get_addresses_body K N buf l r a sk w = Some (x, v) \<Longrightarrow> \<exists>cs. v = w\<lparr>calls := cs\<rparr>"
  by (auto simp: get_addresses_body_def Let_def syscall_def split: if_splits elim!: bind_SomeE)

interpretation addresses_op: under_lock C "get_addresses_body K N buf l r" for C K N buf l r
proof
  show "get_addresses_body K N buf l r a sk (w\<lparr>core := s\<rparr>) =
      map_option (map_prod id (\<lambda>v. v\<lparr>core := s\<rparr>)) (get_addresses_body K N buf l r a sk w)"
    for s a sk and w :: "'a world"
    by (auto simp: get_addresses_body_def Let_def syscall_def split: Option.bind_splits)
  show "beside a w v" if "get_addresses_body K N buf l r a sk w = Some (x, v)"
    for a sk x v and w :: "'a world"
    using get_addresses_talks [OF that] by auto
qed

lemma sendto_body_eq:
  "sendto_body C K N sg abuf l r h buf len ip port a sk w =
    (let c = Sys_sendto (sk_socket sk) buf (int_len len) (make_sockaddr N ip port);
         x = K (calls w) c; status = word_of_int (r_ret x); w = w\<lparr>calls := calls w @ [c]\<rparr>
     in if status = -1 \<and> r_errno x = EAGAIN then Some (0, w)
        else if size_ge0 sg status then Some (status, w)
        else map_option (\<lambda>(_, w). (-1, w\<lparr>calls := calls w @ [Ofc_log ''status, len'' [sint status, uint len]]\<rparr>))
               (ofc_socket_impl_get_addresses C K N abuf h l r
                 (w\<lparr>calls := calls w @ [Ofc_log ''Sendto Error: %.80s'' [r_errno x]]\<rparr>)))"
  by (auto simp: sendto_body_def Let_def syscall_def map_option_case split: option.split Option.bind_split)

interpretation sendto_op: under_lock C "sendto_body C K N sg abuf l r h buf len ip port"
  for C K N sg abuf l r h buf len ip port
proof
  show "sendto_body C K N sg abuf l r h buf len ip port a sk (w\<lparr>core := s\<rparr>) =
      map_option (map_prod id (\<lambda>v. v\<lparr>core := s\<rparr>)) (sendto_body C K N sg abuf l r h buf len ip port a sk w)"
    if laws: "handle_laws C" "core_reads C s = core_reads C (core w)" for s a sk and w :: "'a world"
  proof -
    have "ofc_socket_impl_get_addresses C K N abuf h l r (w\<lparr>core := s, calls := q\<rparr>) =
      map_option (map_prod id (\<lambda>v. v\<lparr>core := s\<rparr>))
        (ofc_socket_impl_get_addresses C K N abuf h l r (w\<lparr>calls := q\<rparr>))" for q
    proof -
      have c: "w\<lparr>calls := q, core := s\<rparr> = w\<lparr>core := s, calls := q\<rparr>" by simp
      show ?thesis
      using addresses_op.on_socket_swap [OF laws(1), of s "w\<lparr>calls := q\<rparr>" h] laws(2)
      by (simp only: c) (simp add: ofc_socket_impl_get_addresses_def c)
    qed
    then show ?thesis
      by (auto simp: sendto_body_eq Let_def option.map_comp o_def map_prod_def split_beta
          intro!: option.map_cong)
  qed
  show "beside a w v"
    if laws: "handle_laws C" and run: "sendto_body C K N sg abuf l r h buf len ip port a sk w = Some (x, v)"
    for a sk x v and w :: "'a world"
  proof -
    have "\<exists>cs. v = w\<lparr>calls := cs\<rparr>"
      if "ofc_socket_impl_get_addresses C K N abuf h l r (w\<lparr>calls := q\<rparr>) = Some (y, v)" for q y v
      using addresses_op.on_socket_cases [OF laws that [unfolded ofc_socket_impl_get_addresses_def]]
      by (auto dest!: get_addresses_talks)
    with run have "\<exists>cs. v = w\<lparr>calls := cs\<rparr>"
      by (fastforce simp: sendto_body_eq Let_def split: if_splits)
    then show ?thesis by auto
  qed
qed

end
