(* ===== verification/Socket_Life.thy ===== *)
theory Socket_Life
  imports Socket_Correct
begin

text \<open>
  The properties of the socket operations of \<open>src/socket_darwin.c\<close>: the life of a socket and its
  descriptor, results and lengths of the data operations, events, and the discipline all
  operations keep towards the handle layer.
\<close>

lemma sk_atE:
  assumes "sk_at C h w = Some sk"
  obtains a where "deref C h (core w) = Some a" and "sk_cells w a = Some sk"
  using assms unfolding sk_at_def by (auto elim: bind_SomeE)

section \<open>The life of a socket\<close>

text \<open>
  C25: Creating a socket asks the kernel for the right socket, whatever the arguments: \<open>AF_INET\<close> (2)
  or \<open>AF_INET6\<close> (30) by the family; \<open>SOCK_STREAM\<close> (1) with TCP (6) for a stream socket, \<open>SOCK_RAW\<close> (3)
  with ICMP (1) or ICMPv6 (58) by the family for an ICMP socket, \<open>SOCK_DGRAM\<close> (2) with UDP (17) for
  every other. On success the new handle names a cell with that descriptor, no events and the
  unspecified address, broadcast is enabled exactly for datagram sockets and \<open>SIGPIPE\<close> is switched
  off; on failure the result is the null handle and neither cell nor handle is left behind.
\<close>

theorem socket_create:
  assumes "lifecycle_laws C" and "\<forall>g. deref C g (core w) \<noteq> Some a"
    and "c = Sys_socket (if fam = OFC_FAMILY_IP then 2 else 30)
          (if t = SOCKET_TYPE_STREAM then 1 else if t = SOCKET_TYPE_ICMP then 3 else 2)
          (if t = SOCKET_TYPE_STREAM then 6
           else if t = SOCKET_TYPE_ICMP then if fam = OFC_FAMILY_IP then 1 else 58 else 17)"
    and "d = r_ret (K (calls w) c)" and "ofc_socket_impl_create C K N fam t (Some a) g w = (h, w')"
  shows "(0 \<le> d \<longrightarrow> h \<noteq> OFC_HANDLE_NULL \<and>
      (\<exists>sk. sk_at C h w' = Some sk \<and> sk_socket sk = d \<and> sk_family sk = fam \<and> sk_events sk = 0 \<and>
         sk_revents sk = 0 \<and>
         (if fam = OFC_FAMILY_IP
          then ip_version (sk_ip sk) = OFC_FAMILY_IP \<and> ipv4_addr (sk_ip sk) = OFC_INADDR_ANY N
          else ip_version (sk_ip sk) = OFC_FAMILY_IPV6 \<and>
            (s6_addr (sk_ip sk), scope (sk_ip sk)) = ofc_in6addr_any N)) \<and>
      calls w' = calls w @ [c] @ (if t = SOCKET_TYPE_DGRAM then [Sys_setsockopt d SO_BROADCAST 1] else [])
        @ [Sys_setsockopt d SO_NOSIGPIPE 1]) \<and>
    (d < 0 \<longrightarrow> h = OFC_HANDLE_NULL \<and> core w' = core w \<and> sk_cells w' = (sk_cells w)(a := None) \<and>
      (\<exists>e. calls w' = calls w @ [c, Ofc_log ''socket error: %s, errno %d'' e]))"
proof -
  obtain h0 s where h0: "ofc_handle_create C OFC_HANDLE_SOCKET_IMPL a (core w) = (h0, s)" by fastforce
  note l = lifecycle_lawsD(1) [OF assms(1) h0 assms(2)]
  have c: "c = Sys_socket (if fam = OFC_FAMILY_IP then INET else INET6) (stype_of t)
      (proto_of t (if fam = OFC_FAMILY_IP then OFC_FAMILY_IP else OFC_FAMILY_IPV6))"
    unfolding assms(3) by (cases t) (simp_all add: INET_def INET6_def)
  show ?thesis
    using assms(5) l h0 unfolding assms(4) c
    by (cases "0 \<le> r_ret (K (calls w) c)")
      (auto simp: ofc_socket_impl_create_def syscall_def Let_def sk_at_def c not_le not_less
        split: if_splits prod.splits)
qed

definition demo_kernel :: "int \<Rightarrow> int \<Rightarrow> kernel" where
  "demo_kernel r e = (\<lambda>_ _. \<lparr>r_ret = r, r_errno = e, r_bytes = []\<rparr>)"

definition demo_cell :: OFC_SOCKET_IMPL where
  "demo_cell = \<lparr>sk_socket = 11, sk_family = OFC_FAMILY_IP, sk_events = 0, sk_revents = 0,
     sk_ip = \<lparr>ip_version = OFC_FAMILY_IP, ipv4_addr = 0, s6_addr = replicate 16 0, scope = 0\<rparr>\<rparr>"

theorem socket_create_witness:
  "(\<exists>h w'. ofc_socket_impl_create demo_api (demo_kernel 11 0) demo_net OFC_FAMILY_IP SOCKET_TYPE_DGRAM
      (Some 40) demo_cell (demo_world demo_empty) = (h, w') \<and>
     calls w' = [Sys_socket 2 2 17, Sys_setsockopt 11 SO_BROADCAST 1, Sys_setsockopt 11 SO_NOSIGPIPE 1]) \<and>
   (\<exists>h w'. ofc_socket_impl_create demo_api (demo_kernel 11 0) demo_net OFC_FAMILY_IPV6 SOCKET_TYPE_STREAM
      (Some 40) demo_cell (demo_world demo_empty) = (h, w') \<and>
     calls w' = [Sys_socket 30 1 6, Sys_setsockopt 11 SO_NOSIGPIPE 1]) \<and>
   (\<exists>h w'. ofc_socket_impl_create demo_api (demo_kernel 11 0) demo_net OFC_FAMILY_IPV6 SOCKET_TYPE_ICMP
      (Some 40) demo_cell (demo_world demo_empty) = (h, w') \<and>
     calls w' = [Sys_socket 30 3 58, Sys_setsockopt 11 SO_NOSIGPIPE 1])"
proof -
  have fresh: "\<forall>g. deref demo_api g (core (demo_world demo_empty)) \<noteq> Some 40" by (simp add: demo_deref_iff)
  let ?mk = "\<lambda>fam t. ofc_socket_impl_create demo_api (demo_kernel 11 0) demo_net fam t (Some 40) demo_cell
      (demo_world demo_empty)"
  note cr = socket_create [OF demo_lifecycle_laws fresh refl refl]
  obtain h1 v1 h2 v2 h3 v3 where e: "?mk OFC_FAMILY_IP SOCKET_TYPE_DGRAM = (h1, v1)"
    "?mk OFC_FAMILY_IPV6 SOCKET_TYPE_STREAM = (h2, v2)" "?mk OFC_FAMILY_IPV6 SOCKET_TYPE_ICMP = (h3, v3)"
    by (metis surj_pair)
  from cr [OF e(1)] cr [OF e(2)] cr [OF e(3)] e show ?thesis
    by (simp add: demo_kernel_def)
qed

text \<open>
  A socket's descriptor is closed exactly once, whether it is destroyed after
  \<open>ofc_socket_impl_close\<close> or without it; destroying frees the cell and makes the handle dead, and
  closing a dead handle fails without a system call.
\<close>

theorem socket_closed_once:
  assumes "handle_laws C" and "lifecycle_laws C" and "sk_at C h w = Some sk" and "0 \<le> sk_socket sk"
    and "deref C h (core w) = Some a"
  shows "\<exists>w1 w2 w3. ofc_socket_impl_close C K h w = Some (True, w1) \<and>
    ofc_socket_impl_destroy C K h w1 = Some w2 \<and> calls w2 = calls w @ [Sys_close (sk_socket sk)] \<and>
    ofc_socket_impl_destroy C K h w = Some w3 \<and> calls w3 = calls w @ [Sys_close (sk_socket sk)] \<and>
    sk_cells w2 a = None \<and> deref C h (core w2) = None \<and> sk_cells w3 a = None \<and>
    deref C h (core w3) = None \<and> ofc_socket_impl_close C K h w2 = Some (False, w2)"
proof -
  have sk: "sk_cells w a = Some sk" using assms(3,5) by (simp add: sk_at_def)
  let ?w1 = "w\<lparr>calls := calls w @ [Sys_close (sk_socket sk)],
      sk_cells := (sk_cells w)(a \<mapsto> sk\<lparr>sk_socket := -1\<rparr>)\<rparr>"
  have c: "ofc_socket_impl_close C K h w = Some (True, ?w1)"
    by (simp add: ofc_socket_impl_close_def close_op.live [OF assms(1,5) sk] close_body_def syscall_def)
  have gone: "deref C h (ofc_handle_unlock C h (ofc_handle_destroy C h (snd (ofc_handle_lock C h (core w))))) = None"
    using lifecycle_lawsD(2) [OF assms(2), of h "core w" h] assms(5) by simp
  have d1: "\<exists>w2. ofc_socket_impl_destroy C K h ?w1 = Some w2 \<and> calls w2 = calls ?w1 \<and>
      sk_cells w2 a = None \<and> deref C h (core w2) = None"
    using assms(5) gone
    by (simp add: ofc_socket_impl_destroy_def lock_h_eq unlock_h_def destroy_h_def)
  have d3: "\<exists>w3. ofc_socket_impl_destroy C K h w = Some w3 \<and>
      calls w3 = calls w @ [Sys_close (sk_socket sk)] \<and> sk_cells w3 a = None \<and> deref C h (core w3) = None"
    using assms(4,5) sk gone
    by (simp add: ofc_socket_impl_destroy_def lock_h_eq unlock_h_def destroy_h_def syscall_def)
  have "ofc_socket_impl_close C K h v = Some (False, v)" if "deref C h (core v) = None" for v
    unfolding ofc_socket_impl_close_def using close_op.dead [OF assms(1) that] .
  then show ?thesis using c d1 d3 by auto
qed

definition demo_socket_world :: "demo world" where
  "demo_socket_world = (demo_world (demo_empty\<lparr>d_live := [40 \<mapsto> OFC_HANDLE_SOCKET_IMPL]\<rparr>))
     \<lparr>sk_cells := [40 \<mapsto> demo_cell]\<rparr>"

lemma demo_socket_at: "sk_at demo_api (Handle 40) demo_socket_world = Some demo_cell"
  by (simp add: sk_at_def demo_socket_world_def)

lemma demo_socket_deref: "deref demo_api (Handle 40) (core demo_socket_world) = Some 40"
  by (simp add: demo_socket_world_def)

theorem socket_closed_once_witness:
  "\<exists>w1 w2. ofc_socket_impl_close demo_api (demo_kernel 0 0) (Handle 40) demo_socket_world = Some (True, w1) \<and>
     ofc_socket_impl_destroy demo_api (demo_kernel 0 0) (Handle 40) w1 = Some w2 \<and>
     calls w2 = calls demo_socket_world @ [Sys_close 11]"
  using socket_closed_once [OF demo_handle_laws demo_lifecycle_laws demo_socket_at _ demo_socket_deref, of "demo_kernel 0 0"]
  by (simp add: demo_cell_def) blast

section \<open>Moving data\<close>

lemma sint_small: "- (2 ^ 63) \<le> r \<Longrightarrow> r < 2 ^ 63 \<Longrightarrow> sint (word_of_int r :: u64) = r"
  unfolding sint_sbintrunc' by (intro signed_take_bit_int_eq_self) simp_all

lemma word_minus1_iff: "-1 \<le> r \<Longrightarrow> r < 2 ^ 63 \<Longrightarrow> (word_of_int r :: u64) = -1 \<longleftrightarrow> r = -1"
  using sint_small [of r] by auto

text \<open>
  C23: \<open>ofc_socket_impl_send\<close> and \<open>ofc_socket_impl_recv\<close> make one system call and return the number of
  bytes it moved, 0 when it would have blocked and -1 on every other error; the result does not
  depend on whether \<open>OFC_SIZET\<close> is signed.
\<close>

theorem send_recv_results:
  assumes "handle_laws C" and "sk_at C h w = Some sk"
    and "cs = Sys_send (sk_socket sk) buf (int_len len)" and "cr = Sys_recv (sk_socket sk) (int_len len)"
    and "\<And>c. -1 \<le> r_ret (K (calls w) c) \<and> r_ret (K (calls w) c) < 2 ^ 63"
    and "res = (\<lambda>x. if r_ret x = -1 then if r_errno x = EAGAIN then 0 else -1 else word_of_int (r_ret x))"
  shows "ofc_socket_impl_send C K sg h buf len w =
      Some (res (K (calls w) cs), w\<lparr>calls := calls w @ [cs]\<rparr>) \<and>
    ofc_socket_impl_recv C K sg h len w =
      Some ((res (K (calls w) cr), r_bytes (K (calls w) cr)), w\<lparr>calls := calls w @ [cr]\<rparr>)"
proof -
  obtain a where a: "deref C h (core w) = Some a" "sk_cells w a = Some sk"
    using assms(2) by (rule sk_atE)
  have io: "io_result sg (K (calls w) c) = res (K (calls w) c)" for c
    using assms(5) [of c]
    by (auto simp: io_result_def Let_def size_ge0_def assms(6) word_minus1_iff sint_small)
  show ?thesis
    unfolding ofc_socket_impl_send_def ofc_socket_impl_recv_def send_op.live [OF assms(1) a]
      recv_op.live [OF assms(1) a] by (simp add: syscall_def io assms(3,4))
qed

theorem send_recv_results_witness:
  "ofc_socket_impl_send demo_api (demo_kernel (-1) EAGAIN) False (Handle 40) [7] 1 demo_socket_world =
     Some (0, demo_socket_world\<lparr>calls := calls demo_socket_world @ [Sys_send 11 [7] (int_len 1)]\<rparr>)"
  using send_recv_results [OF demo_handle_laws demo_socket_at refl refl _ refl,
      of "demo_kernel (-1) EAGAIN" False "[7]" 1]
  by (auto simp: demo_kernel_def demo_cell_def)

lemma sint_u64: "sint (v :: u64) = (if uint v < 2 ^ 63 then uint v else uint v - 2 ^ 64)"
proof -
  have u: "0 \<le> uint v" "uint v < 2 ^ 64" using uint_lt2p [of v] by simp_all
  have "sint v = uint v - 2 ^ 64 * of_bool (bit (uint v) 63)"
    using take_bit_int_eq_self [OF u] by (simp add: sint_uint signed_take_bit_eq_take_bit_minus)
  moreover have "bit (uint v) 63 \<longleftrightarrow> 2 ^ 63 \<le> uint v"
  proof (cases "uint v < 2 ^ 63")
    case True
    then have "uint v div 2 ^ 63 = 0" using u by simp
    then show ?thesis using True by (simp add: bit_iff_odd)
  next
    case False
    then have "uint v div 2 ^ 63 = 1" using u by (intro int_div_pos_eq [of _ _ _ "uint v - 2 ^ 63"]) simp_all
    then show ?thesis using False by (simp add: bit_iff_odd)
  qed
  ultimately show ?thesis by (simp add: not_le not_less)
qed
text \<open>
  The length given to the data operations reaches the system call unchanged below 2^31 and is
  altered from there to the last 2^31 values of the type: the cast to \<open>int\<close> drops the upper half.
\<close>

theorem io_length_exact:
  "int_len len = len \<longleftrightarrow> uint len < 2 ^ 31 \<or> 2 ^ 64 - 2 ^ 31 \<le> uint len"
proof -
  have "sint (int_len len) = signed_take_bit 31 (uint len)"
    by (rule bit_eqI) (auto simp: int_len_def bit_simps min_def split: if_splits)
  also have "\<dots> = signed_take_bit 31 (sint len)" by (rule bit_eqI) (auto simp: bit_simps)
  finally have "int_len len = len \<longleftrightarrow> signed_take_bit 31 (sint len) = sint len"
    by (simp add: word_eq_iff_signed [where 'a = int])
  also have "\<dots> \<longleftrightarrow> - (2 ^ 31) \<le> sint len \<and> sint len < 2 ^ 31"
    by (simp add: signed_take_bit_int_eq_self_iff)
  also have "\<dots> \<longleftrightarrow> uint len < 2 ^ 31 \<or> 2 ^ 64 - 2 ^ 31 \<le> uint len"
    using uint_lt2p [of len] order_trans [OF _ uint_ge_0 [of len], of "- (2 ^ 31)"]
    by (auto simp: sint_u64)
  finally show ?thesis .
qed

text \<open>
  C39: When \<open>recvfrom\<close> fails (and not because it would block) the caller's address and port are
  left alone if \<open>OFC_SIZET\<close> is signed; if it is unsigned the test \<open>status >= 0\<close> is always true
  and they are overwritten from the zeroed buffer, with port 0 and the IPv6 address of zeros. The
  result is -1 either way.
\<close>

theorem recv_from_failure:
  assumes "handle_laws C" and "sk_at C h w = Some sk"
    and "x = K (calls w) (Sys_recvfrom (sk_socket sk) (int_len len))"
    and "r_ret x = -1" and "r_errno x \<noteq> EAGAIN" and "r_bytes x = []"
  shows "\<exists>ip' port' w'. ofc_socket_impl_recv_from C K N sg sp h len (Some ip) (Some port) w =
      Some ((-1, [], ip', port'), w') \<and>
    (if sg then ip' = Some ip \<and> port' = Some port
     else port' = Some (OFC_NET_NTOS N [0, 0]) \<and>
       ip' = Some (ip\<lparr>ip_version := OFC_FAMILY_IPV6, s6_addr := replicate 16 0\<rparr>))"
proof -
  obtain a where a: "deref C h (core w) = Some a" "sk_cells w a = Some sk"
    using assms(2) by (rule sk_atE)
  have z: "map (\<lambda>k. (replicate 28 0 :: u8 list) ! (8 + k)) [0..<16] = replicate 16 0"
    by (rule nth_equalityI) simp_all
  show ?thesis
    unfolding ofc_socket_impl_recv_from_def recv_from_op.live [OF assms(1) a]
    using assms(4-6) unfolding assms(3)
    by (simp add: recv_from_body_def syscall_def Let_def size_ge0_def fill_def unmake_sockaddr_def
        sa_family_def AF_INET_def z numeral_eq_Suc)
qed

theorem recv_from_failure_witness:
  "\<exists>ip' w'. ofc_socket_impl_recv_from demo_api (demo_kernel (-1) 54) demo_net False (\<lambda>_. 0) (Handle 40) 5
      (Some (sk_ip demo_cell)) (Some 9) demo_socket_world = Some ((-1, [], ip', Some 0), w')"
  using recv_from_failure [OF demo_handle_laws demo_socket_at refl, of "demo_kernel (-1) 54" 5 demo_net False
      "\<lambda>_. 0" "sk_ip demo_cell" 9] by (simp add: demo_kernel_def EAGAIN_def demo_net_def) blast

section \<open>Events\<close>

lemma or_zero_iff: "(x :: 'a::len word) OR y = 0 \<longleftrightarrow> x = 0 \<and> y = 0"
  by (auto simp: or_eq_0_iff)

text \<open>Both translations are a union of what each test contributes.\<close>

lemma union_if: "(if c then (e :: 'a::len word) OR b else e) = e OR (if c then b else 0)"
  by simp

lemma and_if: "(if c then (b :: 'a::len word) else 0) AND z = (if c then b AND z else 0)"
  by simp

lemma poll_of_events_bits:
  "poll_of_events B t AND POLLHUP \<noteq> 0 \<longleftrightarrow> t AND OFC_SOCKET_EVENT_CLOSE B \<noteq> 0"
  "poll_of_events B t AND POLLIN \<noteq> 0 \<longleftrightarrow>
     t AND OFC_SOCKET_EVENT_ACCEPT B \<noteq> 0 \<or> t AND OFC_SOCKET_EVENT_READ B \<noteq> 0"
  "poll_of_events B t AND POLLERR \<noteq> 0 \<longleftrightarrow> t AND OFC_SOCKET_EVENT_ADDRESSCHANGE B \<noteq> 0"
  "poll_of_events B t AND POLLPRI \<noteq> 0 \<longleftrightarrow> t AND OFC_SOCKET_EVENT_QOS B \<noteq> 0"
  "poll_of_events B t AND (POLLRDBAND OR POLLWRBAND) \<noteq> 0 \<longleftrightarrow> t AND OFC_SOCKET_EVENT_QOB B \<noteq> 0"
  "poll_of_events B t AND POLLOUT \<noteq> 0 \<longleftrightarrow> t AND OFC_SOCKET_EVENT_WRITE B \<noteq> 0"
  unfolding poll_of_events_def Let_def union_if
  by (simp_all add: word_ao_dist and_if or_zero_iff poll_bits)

text \<open>The events as tests, and the bits as numbers of \<open>bit_list\<close>.\<close>

lemma bit_list_nth:
  "OFC_SOCKET_EVENT_CLOSE B = bit_list B ! 0" "OFC_SOCKET_EVENT_ACCEPT B = bit_list B ! 1"
  "OFC_SOCKET_EVENT_ADDRESSCHANGE B = bit_list B ! 2" "OFC_SOCKET_EVENT_QOS B = bit_list B ! 3"
  "OFC_SOCKET_EVENT_QOB B = bit_list B ! 4" "OFC_SOCKET_EVENT_READ B = bit_list B ! 5"
  "OFC_SOCKET_EVENT_WRITE B = bit_list B ! 6"
  by (simp_all add: bit_list_def)

lemma bit_list_facts:
  assumes "disjoint_bits B"
  shows "i < 7 \<Longrightarrow> j < 7 \<Longrightarrow> i \<noteq> j \<Longrightarrow> bit_list B ! i AND bit_list B ! j = 0"
    and "i < 7 \<Longrightarrow> bit_list B ! i \<noteq> 0"
  using disjoint_bitsD [OF assms, of i j] disjoint_bitsD [OF assms, of i i] by auto

lemma events_of_poll_bits:
  assumes "disjoint_bits B"
  shows "events_of_poll B r AND OFC_SOCKET_EVENT_CLOSE B \<noteq> 0 \<longleftrightarrow> r AND POLLHUP \<noteq> 0"
    and "events_of_poll B r AND OFC_SOCKET_EVENT_ACCEPT B \<noteq> 0 \<longleftrightarrow> r AND POLLIN \<noteq> 0"
    and "events_of_poll B r AND OFC_SOCKET_EVENT_READ B \<noteq> 0 \<longleftrightarrow> r AND POLLIN \<noteq> 0"
    and "events_of_poll B r AND OFC_SOCKET_EVENT_ADDRESSCHANGE B \<noteq> 0 \<longleftrightarrow> r AND POLLERR \<noteq> 0"
    and "events_of_poll B r AND OFC_SOCKET_EVENT_QOS B \<noteq> 0 \<longleftrightarrow> r AND POLLPRI \<noteq> 0"
    and "events_of_poll B r AND OFC_SOCKET_EVENT_QOB B \<noteq> 0 \<longleftrightarrow> r AND (POLLRDBAND OR POLLWRBAND) \<noteq> 0"
    and "events_of_poll B r AND OFC_SOCKET_EVENT_WRITE B \<noteq> 0 \<longleftrightarrow> r AND POLLOUT \<noteq> 0"
  unfolding events_of_poll_def Let_def union_if bit_list_nth
  by (simp_all add: word_ao_dist and_if or_zero_iff bit_list_facts [OF assms])

text \<open>
  C26: The translations between socket events and poll bits fit together: after
  \<open>ofc_socket_impl_enable\<close>, a poll result with exactly the bits asked for makes
  \<open>ofc_socket_impl_test\<close> report every event that was enabled and no other, except that accept and
  read share a poll bit and are reported together.
\<close>

theorem socket_events_roundtrip:
  assumes "disjoint_bits B" and "sk_usable C h w" and "sk_at C h w \<noteq> None"
  shows "\<exists>w1 w2 T. ofc_socket_impl_enable C B h t w = Some (True, w1) \<and>
    ofc_socket_impl_get_event C h w1 = Some (poll_of_events B t, w1) \<and>
    ofc_socket_impl_set_event C h (poll_of_events B t) w1 = Some w2 \<and>
    ofc_socket_impl_test C B h w2 = Some (T, w2) \<and>
    (\<forall>b \<in> {OFC_SOCKET_EVENT_CLOSE B, OFC_SOCKET_EVENT_ADDRESSCHANGE B, OFC_SOCKET_EVENT_QOS B,
            OFC_SOCKET_EVENT_QOB B, OFC_SOCKET_EVENT_WRITE B}. T AND b \<noteq> 0 \<longleftrightarrow> t AND b \<noteq> 0) \<and>
    (\<forall>b \<in> {OFC_SOCKET_EVENT_ACCEPT B, OFC_SOCKET_EVENT_READ B}. T AND b \<noteq> 0 \<longleftrightarrow>
       t AND OFC_SOCKET_EVENT_ACCEPT B \<noteq> 0 \<or> t AND OFC_SOCKET_EVENT_READ B \<noteq> 0)"
proof -
  have laws: "handle_laws C" using assms(2) by (simp add: sk_usable_def)
  obtain sk where sk: "sk_at C h w = Some sk" using assms(3) by blast
  let ?p = "poll_of_events B t"
  let ?w1 = "sk_write C h (sk_events_update (\<lambda>_. ?p)) w"
  let ?w2 = "sk_write C h (sk_revents_update (\<lambda>_. ?p)) ?w1"
  have at1: "sk_at C h ?w1 = Some (sk\<lparr>sk_events := ?p\<rparr>)" by (simp add: sk_at_write [OF laws] sk)
  have at2: "sk_at C h ?w2 = Some (sk\<lparr>sk_events := ?p, sk_revents := ?p\<rparr>)"
    by (simp add: sk_at_write [OF laws] sk)
  have u: "sk_usable C h ?w1" "sk_usable C h ?w2" using laws at1 at2 by (simp_all add: sk_usable_def)
  have live: "deref C h (core w) \<noteq> None" using sk by (cases "deref C h (core w)") (simp_all add: sk_at_def)
  show ?thesis
    using enable_eq [OF assms(2), of B t] live get_event_eq [OF u(1)] set_event_eq [OF u(1), of ?p]
      test_eq [OF u(2), of B] at1 at2
      events_of_poll_bits [OF assms(1), of ?p] poll_of_events_bits [of B t] by auto
qed

definition demo_bits :: event_bits where
  "demo_bits = \<lparr>OFC_SOCKET_EVENT_CLOSE = 1, OFC_SOCKET_EVENT_ACCEPT = 2,
     OFC_SOCKET_EVENT_ADDRESSCHANGE = 4, OFC_SOCKET_EVENT_QOS = 8, OFC_SOCKET_EVENT_QOB = 16,
     OFC_SOCKET_EVENT_READ = 32, OFC_SOCKET_EVENT_WRITE = 64\<rparr>"

lemma demo_bits_disjoint: "disjoint_bits demo_bits"
  by code_simp

theorem socket_events_roundtrip_witness:
  "\<exists>w1 w2 T. ofc_socket_impl_enable demo_api demo_bits (Handle 40) 65 demo_socket_world = Some (True, w1) \<and>
    ofc_socket_impl_set_event demo_api (Handle 40) (poll_of_events demo_bits 65) w1 = Some w2 \<and>
    ofc_socket_impl_test demo_api demo_bits (Handle 40) w2 = Some (T, w2)"
proof -
  have "sk_usable demo_api (Handle 40) demo_socket_world" "sk_at demo_api (Handle 40) demo_socket_world \<noteq> None"
    by (simp_all add: sk_usable_def demo_socket_at)
  from socket_events_roundtrip [OF demo_bits_disjoint this, of 65] show ?thesis by blast
qed

section \<open>Accepting and blocking\<close>

text \<open>
  An accepted connection gets a handle to a cell of which only the descriptor is set: its events,
  family and address are whatever the allocated memory held. \<open>SIGPIPE\<close> is switched off on the
  listening socket, never on the accepted one.
\<close>

theorem accept_leaves_cell:
  assumes "handle_laws C" and "lifecycle_laws C" and "sk_at C h w = Some sk"
    and "\<forall>k. deref C k (core w) \<noteq> Some b" and "x = K (calls w) (Sys_accept (sk_socket sk))"
    and "0 \<le> r_ret x" and "unmake_sockaddr N (fill buf (r_bytes x)) ip port = Some (ip', port')"
    and "ofc_socket_impl_accept C K N (Some b) g buf h ip port w = Some ((k, out), w')"
  shows "sk_cells w' b = Some (g\<lparr>sk_socket := r_ret x\<rparr>) \<and> out = (ip', port') \<and>
    calls w' = calls w @ [Sys_accept (sk_socket sk), Sys_setsockopt (sk_socket sk) SO_NOSIGPIPE 1]"
proof -
  obtain a where a: "deref C h (core w) = Some a" "sk_cells w a = Some sk"
    using assms(3) by (rule sk_atE)
  show ?thesis
    using assms(8) a assms(6,7) unfolding assms(5)
    by (auto simp: ofc_socket_impl_accept_def on_socket_def accept_body_def lock_h_eq unlock_h_def
        syscall_def Let_def split: prod.splits if_splits)
qed

theorem accept_leaves_cell_witness:
  "\<exists>k out w'. ofc_socket_impl_accept demo_api (demo_kernel 12 0) demo_net (Some 41)
      (demo_cell\<lparr>sk_events := 0xFFFF\<rparr>) (replicate 28 0) (Handle 40) None None demo_socket_world =
      Some ((k, out), w') \<and>
     sk_cells w' 41 = Some (demo_cell\<lparr>sk_events := 0xFFFF, sk_socket := 12\<rparr>)"
proof -
  have u: "unmake_sockaddr demo_net (fill (replicate 28 0) (r_bytes (demo_kernel 12 0 (calls demo_socket_world)
      (Sys_accept (sk_socket demo_cell))))) None None = Some (None, None)"
    by (simp add: unmake_sockaddr_def fill_def demo_kernel_def sa_family_def AF_INET_def)
  have d: "\<forall>k. deref demo_api k (core demo_socket_world) \<noteq> Some 41"
    by (simp add: demo_deref_iff demo_socket_world_def)
  obtain k out w' where e: "ofc_socket_impl_accept demo_api (demo_kernel 12 0) demo_net (Some 41)
      (demo_cell\<lparr>sk_events := 0xFFFF\<rparr>) (replicate 28 0) (Handle 40) None None demo_socket_world =
      Some ((k, out), w')"
    using u demo_socket_deref
    by (auto simp: ofc_socket_impl_accept_def on_socket_def accept_body_def lock_h_eq syscall_def Let_def
        demo_socket_world_def demo_kernel_def demo_cell_def)
  from accept_leaves_cell [OF demo_handle_laws demo_lifecycle_laws demo_socket_at d refl _ u e] e
  show ?thesis by (auto simp: demo_kernel_def)
qed

text \<open>
  \<open>ofc_socket_impl_no_block\<close> can only switch blocking off: whatever its flag, it sets
  \<open>O_NONBLOCK\<close> on top of the flags the descriptor has.
\<close>

theorem no_block_ignores_flag:
  assumes "handle_laws C" and "sk_at C h w = Some sk"
    and "flags = r_ret (K (calls w) (Sys_fcntl_getfl (sk_socket sk)))" and "0 \<le> flags"
  shows "\<exists>w'. ofc_socket_impl_no_block C K h onoff w = Some (True, w') \<and>
    calls w' = calls w @ [Sys_fcntl_getfl (sk_socket sk), Sys_fcntl_setfl (sk_socket sk) (flags OR O_NONBLOCK)]"
proof -
  obtain a where a: "deref C h (core w) = Some a" "sk_cells w a = Some sk"
    using assms(2) by (rule sk_atE)
  show ?thesis
    unfolding ofc_socket_impl_no_block_def no_block_op.live [OF assms(1) a]
    using assms(4) unfolding assms(3) by (simp add: no_block_body_def syscall_def)
qed

theorem no_block_ignores_flag_witness:
  "\<exists>w'. ofc_socket_impl_no_block demo_api (demo_kernel 2 0) (Handle 40) False demo_socket_world = Some (True, w')"
  using no_block_ignores_flag [OF demo_handle_laws demo_socket_at refl, of "demo_kernel 2 0" False]
  by (auto simp: demo_kernel_def)

section \<open>The discipline of the operations\<close>

text \<open>The operations that use a socket without creating or destroying a handle.\<close>

inductive socket_step :: "'h core_api \<Rightarrow> kernel \<Rightarrow> net_api \<Rightarrow> handle \<Rightarrow> 'h world \<Rightarrow> 'h world \<Rightarrow> bool"
  for C K N h where
  "ofc_socket_impl_bind C K N h ip port w = Some (b, w') \<Longrightarrow> socket_step C K N h w w'"
| "ofc_socket_impl_close C K h w = Some (b, w') \<Longrightarrow> socket_step C K N h w w'"
| "ofc_socket_impl_connect C K N h ip port w = Some (b, w') \<Longrightarrow> socket_step C K N h w w'"
| "ofc_socket_impl_listen C K h n w = Some (b, w') \<Longrightarrow> socket_step C K N h w w'"
| "ofc_socket_impl_reuse_addr C K h n w = Some (b, w') \<Longrightarrow> socket_step C K N h w w'"
| "ofc_socket_impl_connected C K h w = Some (b, w') \<Longrightarrow> socket_step C K N h w w'"
| "ofc_socket_impl_no_block C K h c w = Some (b, w') \<Longrightarrow> socket_step C K N h w w'"
| "ofc_socket_impl_send C K sg h buf len w = Some (n, w') \<Longrightarrow> socket_step C K N h w w'"
| "ofc_socket_impl_sendto C K N sg abuf l r h buf len ip port w = Some (n, w') \<Longrightarrow> socket_step C K N h w w'"
| "ofc_socket_impl_recv C K sg h len w = Some (y, w') \<Longrightarrow> socket_step C K N h w w'"
| "ofc_socket_impl_recv_from C K N sg sp h len ipo po w = Some (z, w') \<Longrightarrow> socket_step C K N h w w'"
| "ofc_socket_impl_get_addresses C K N buf h l r w = Some (v, w') \<Longrightarrow> socket_step C K N h w w'"
| "ofc_socket_impl_set_send_size C K h sz w = Some (u, w') \<Longrightarrow> socket_step C K N h w w'"
| "ofc_socket_impl_set_recv_size C K h sz w = Some (u, w') \<Longrightarrow> socket_step C K N h w w'"
| "ofc_socket_impl_enable C B h t w = Some (b, w') \<Longrightarrow> socket_step C K N h w w'"
| "ofc_socket_impl_set_event C h p w = Some w' \<Longrightarrow> socket_step C K N h w w'"
| "ofc_socket_impl_get_event C h w = Some (p, w') \<Longrightarrow> socket_step C K N h w w'"
| "ofc_socket_impl_test C B h w = Some (t, w') \<Longrightarrow> socket_step C K N h w w'"
| "ofc_socket_impl_get_fd C h w = Some (f, w') \<Longrightarrow> socket_step C K N h w w'"

text \<open>The operations on the events of a socket change its cell or nothing.\<close>

lemma event_side:
  assumes "handle_laws C"
  shows "ofc_socket_impl_enable C B h t w = Some (b, v) \<Longrightarrow> \<exists>e. v = sk_write C h (sk_events_update (\<lambda>_. e)) w"
    and "ofc_socket_impl_set_event C h p w = Some v \<Longrightarrow> v = sk_write C h (sk_revents_update (\<lambda>_. p)) w"
    and "ofc_socket_impl_get_event C h w = Some (p, v) \<Longrightarrow> v = w"
    and "ofc_socket_impl_test C B h w = Some (t, v) \<Longrightarrow> v = w"
    and "ofc_socket_impl_get_fd C h w = Some (f, v) \<Longrightarrow> v = w"
  using returns_usable [OF assms] enable_eq set_event_eq get_event_eq test_eq get_fd_eq
  by (metis option.inject prod.inject)+

lemma step_untouched:
  assumes "handle_laws C" and "socket_step C K N h w w'"
  shows "untouched C h w w'"
  using assms(2)
proof (cases rule: socket_step.cases)
  case (15 B t b)
  then show ?thesis using event_side(1) [OF assms(1)] untouched_write by metis
next
  case (16 p)
  then show ?thesis using event_side(2) [OF assms(1)] untouched_write by metis
next
  case (17 p)
  then show ?thesis using event_side(3) [OF assms(1)] untouched_refl by metis
next
  case (18 B t)
  then show ?thesis using event_side(4) [OF assms(1)] untouched_refl by metis
next
  case (19 f)
  then show ?thesis using event_side(5) [OF assms(1)] untouched_refl by metis
qed (simp_all add: ofc_socket_impl_bind_def ofc_socket_impl_close_def ofc_socket_impl_connect_def
        ofc_socket_impl_listen_def ofc_socket_impl_reuse_addr_def ofc_socket_impl_connected_def
        ofc_socket_impl_no_block_def ofc_socket_impl_send_def ofc_socket_impl_sendto_def
        ofc_socket_impl_recv_def ofc_socket_impl_recv_from_def ofc_socket_impl_get_addresses_def
        ofc_socket_impl_set_send_size_def ofc_socket_impl_set_recv_size_def,
       insert assms(1), auto dest: bind_op.balanced close_op.balanced connect_op.balanced
        checked_op.balanced no_block_op.balanced send_op.balanced sendto_op.balanced
        recv_op.balanced recv_from_op.balanced addresses_op.balanced size_op.balanced)



end
