(* ===== verification/Socket_Descriptors.thy ===== *)
theory Socket_Descriptors
  imports Socket_Life
begin

text \<open>
  The descriptors of sockets (\<open>src/socket_darwin.c\<close>) over any sequence of operations on any
  sockets: what the kernel has open is exactly what the allocated cells hold. A descriptor comes
  from \<open>socket\<close> or \<open>accept\<close> and goes with \<open>close\<close>; every other system call leaves the table alone.
\<close>

section \<open>The descriptors that are open\<close>

text \<open>What is open after the calls of a history, given backwards.\<close>

fun opened :: "kernel \<Rightarrow> call list \<Rightarrow> int set" where
  "opened K [] = {}"
| "opened K (c # cs) =
     (case c of
        Sys_socket _ _ _ \<Rightarrow> {f. f = r_ret (K (rev cs) c) \<and> 0 \<le> f} \<union> opened K cs
      | Sys_accept _ \<Rightarrow> {f. f = r_ret (K (rev cs) c) \<and> 0 \<le> f} \<union> opened K cs
      | Sys_close f \<Rightarrow> opened K cs - {f}
      | _ \<Rightarrow> opened K cs)"

definition open_fds :: "kernel \<Rightarrow> 'h world \<Rightarrow> int set" where
  "open_fds K w = opened K (rev (calls w))"

text \<open>Every \<open>close\<close> of the history was given an open descriptor, or -1.\<close>

fun closes_own :: "kernel \<Rightarrow> call list \<Rightarrow> bool" where
  "closes_own K [] = True"
| "closes_own K (c # cs) =
     ((case c of Sys_close f \<Rightarrow> f = -1 \<or> f \<in> opened K cs | _ \<Rightarrow> True) \<and> closes_own K cs)"

text \<open>
  POSIX: a call that opens a descriptor answers one that is not open, or -1.
\<close>

definition fresh_kernel :: "kernel \<Rightarrow> bool" where
  "fresh_kernel K \<longleftrightarrow> (\<forall>cs c. (\<exists>x y z. c = Sys_socket x y z) \<or> (\<exists>x. c = Sys_accept x) \<longrightarrow>
     -1 \<le> r_ret (K cs c) \<and> r_ret (K cs c) \<notin> opened K (rev cs))"

lemma fresh_kernelD:
  assumes "fresh_kernel K"
  shows "r_ret (K cs (Sys_socket x y z)) \<notin> opened K (rev cs)" "-1 \<le> r_ret (K cs (Sys_socket x y z))"
    and "r_ret (K cs (Sys_accept f)) \<notin> opened K (rev cs)" "-1 \<le> r_ret (K cs (Sys_accept f))"
  using assms unfolding fresh_kernel_def by blast+

fun neutral :: "call \<Rightarrow> bool" where
  "neutral (Sys_socket _ _ _) = False"
| "neutral (Sys_accept _) = False"
| "neutral (Sys_close _) = False"
| "neutral _ = True"

lemma neutral_Cons [simp]:
  "neutral c \<Longrightarrow> opened K (c # cs) = opened K cs"
  "neutral c \<Longrightarrow> closes_own K (c # cs) = closes_own K cs"
  by (cases c; simp)+

lemma neutral_calls:
  "\<forall>c \<in> set cs. neutral c \<Longrightarrow> opened K (rev cs @ ds) = opened K ds \<and> closes_own K (rev cs @ ds) = closes_own K ds"
  by (induction cs rule: rev_induct) (simp_all del: opened.simps closes_own.simps)

lemma opened_ge: "f \<in> opened K cs \<Longrightarrow> 0 \<le> f"
  by (induction cs) (auto split: call.splits)

section \<open>Operations that only talk to the kernel\<close>

text \<open>The cells and the handles stay, and no call of it opens or closes a descriptor.\<close>

definition only_talks :: "'h world \<Rightarrow> 'h world \<Rightarrow> bool" where
  "only_talks w v \<longleftrightarrow> core v = core w \<and> sk_cells v = sk_cells w \<and>
     (\<exists>cs. calls v = calls w @ cs \<and> (\<forall>c \<in> set cs. neutral c))"

lemma only_talks_refl [simp]: "only_talks w w"
  by (simp add: only_talks_def)

lemma only_talks_call [simp]:
  "neutral c \<Longrightarrow> only_talks w (w\<lparr>calls := calls w @ [c]\<rparr>)"
  "neutral c \<Longrightarrow> neutral d \<Longrightarrow> only_talks w (w\<lparr>calls := calls w @ [c, d]\<rparr>)"
  "neutral c \<Longrightarrow> neutral d \<Longrightarrow> neutral e \<Longrightarrow> only_talks w (w\<lparr>calls := calls w @ [c, d, e]\<rparr>)"
  by (auto simp: only_talks_def)

lemma only_talks_trans [trans]: "only_talks u v \<Longrightarrow> only_talks v w \<Longrightarrow> only_talks u w"
  unfolding only_talks_def by (auto intro: exI [of _ "_ @ _"])

locale talker = under_lock C f for C :: "'h core_api" and f :: "('h, 'r) sock_body" +
  assumes talks: "handle_laws C \<Longrightarrow> f a sk w = Some (x, v) \<Longrightarrow> only_talks w v"
begin

lemma on_socket_talks:
  assumes "handle_laws C" and "on_socket C h r f w = Some (x, w')"
  shows "only_talks w w'"
  using on_socket_cases [OF assms] talks [OF assms(1)] by auto

end

interpretation bind_talk: talker C "bind_body K N ip port" for C K N ip port
  by unfold_locales (auto simp: body_defs Let_def syscall_def split: if_splits)

interpretation connect_talk: talker C "connect_body K N ip port" for C K N ip port
  by unfold_locales (auto simp: body_defs Let_def syscall_def)

interpretation listen_talk: talker C "checked_body K (\<lambda>s. Sys_listen s n)" for C K n
  by unfold_locales (auto simp: body_defs Let_def syscall_def)

interpretation option_talk: talker C "checked_body K (\<lambda>s. Sys_setsockopt s opt n)" for C K opt n
  by unfold_locales (auto simp: body_defs Let_def syscall_def)

interpretation peer_talk: talker C "checked_body K Sys_getpeername" for C K
  by unfold_locales (auto simp: body_defs Let_def syscall_def)

interpretation no_block_talk: talker C "no_block_body K b" for C K b
  by unfold_locales (auto simp: body_defs Let_def syscall_def split: if_splits)

interpretation size_talk: talker C "size_body K opt sz" for C K opt sz
  by unfold_locales (auto simp: body_defs Let_def syscall_def)

interpretation send_talk: talker C "\<lambda>a sk w.
    let (r, w) = syscall K (Sys_send (sk_socket sk) buf n) w in Some (io_result sg r, w)"
  for C K sg buf n
  by unfold_locales (auto simp: Let_def syscall_def)

interpretation recv_talk: talker C "\<lambda>a sk w.
    let (r, w) = syscall K (Sys_recv (sk_socket sk) n) w in Some ((io_result sg r, r_bytes r), w)"
  for C K sg n
  by unfold_locales (auto simp: Let_def syscall_def)

interpretation recv_from_talk: talker C "recv_from_body K N sg sp n ip port" for C K N sg sp n ip port
  by unfold_locales
    (auto simp: recv_from_body_def Let_def syscall_def split: if_splits elim!: bind_SomeE)

interpretation addresses_talk: talker C "get_addresses_body K N buf l r" for C K N buf l r
  by unfold_locales
    (auto simp: get_addresses_body_def Let_def syscall_def split: if_splits elim!: bind_SomeE)

interpretation sendto_talk: talker C "sendto_body C K N sg abuf l r' h buf len ip port"
  for C K N sg abuf l r' h buf len ip port
proof (unfold_locales, goal_cases)
  case (1 a sk w x v)
  let ?c = "Sys_sendto (sk_socket sk) buf (int_len len) (make_sockaddr N ip port)"
  let ?u = "\<lambda>y. w\<lparr>calls := calls w @ [?c, Ofc_log ''Sendto Error: %.80s'' y]\<rparr>"
  consider "v = w\<lparr>calls := calls w @ [?c]\<rparr>"
    | y r w1 z where "ofc_socket_impl_get_addresses C K N abuf h l r' (?u y) = Some (r, w1)"
        "v = w1\<lparr>calls := calls w1 @ [Ofc_log ''status, len'' z]\<rparr>"
    using 1(2) by (auto simp: sendto_body_eq Let_def split: if_splits)
  then show ?case
  proof cases
    case 2
    have "only_talks w (?u y)" by simp
    also have "only_talks (?u y) w1"
      using 2(1) addresses_talk.on_socket_talks [OF 1(1)] by (simp add: ofc_socket_impl_get_addresses_def)
    also have "only_talks w1 v" by (simp add: 2(2))
    finally show ?thesis .
  qed simp
qed

section \<open>The table of descriptors\<close>

text \<open>Which descriptor each cell holds; the open ones belong to exactly one cell each.\<close>

definition socks :: "'h world \<Rightarrow> addr \<rightharpoonup> int" where
  "socks w = (\<lambda>a. map_option sk_socket (sk_cells w a))"

definition table_ok :: "(addr \<rightharpoonup> int) \<Rightarrow> int set \<Rightarrow> bool" where
  "table_ok S fs \<longleftrightarrow> (\<forall>f \<in> ran S. -1 \<le> f) \<and> fs = {f \<in> ran S. 0 \<le> f} \<and>
     (\<forall>a b f. S a = Some f \<longrightarrow> S b = Some f \<longrightarrow> 0 \<le> f \<longrightarrow> a = b)"

lemma table_okD:
  assumes "table_ok S fs"
  shows "S a = Some f \<Longrightarrow> -1 \<le> f" and "f \<in> fs \<longleftrightarrow> 0 \<le> f \<and> (\<exists>a. S a = Some f)"
    and "S a = Some f \<Longrightarrow> S b = Some f \<Longrightarrow> 0 \<le> f \<Longrightarrow> a = b"
  using assms unfolding table_ok_def ran_def by (blast | fast)+

lemma table_okI:
  assumes "\<And>a f. S a = Some f \<Longrightarrow> -1 \<le> f" and "\<And>f. f \<in> fs \<longleftrightarrow> 0 \<le> f \<and> (\<exists>a. S a = Some f)"
    and "\<And>a b f. S a = Some f \<Longrightarrow> S b = Some f \<Longrightarrow> 0 \<le> f \<Longrightarrow> a = b"
  shows "table_ok S fs"
  using assms unfolding table_ok_def ran_def by blast

lemma table_open:
  assumes "table_ok S fs" and "S a = None" and "0 \<le> f" and "f \<notin> fs"
  shows "table_ok (S(a \<mapsto> f)) (insert f fs)"
proof (rule table_okI)
  note t = table_okD [OF assms(1)]
  have n: "S b \<noteq> Some f" for b using t(2) [of f] assms(3,4) by blast
  show "-1 \<le> g" if "(S(a \<mapsto> f)) b = Some g" for b g
    using that t(1) assms(3) by (cases "b = a") auto
  show "b = c" if "(S(a \<mapsto> f)) b = Some g" "(S(a \<mapsto> f)) c = Some g" "0 \<le> g" for b c g
    using that n t(3) [of b g c] by (cases "b = a"; cases "c = a") auto
  show "g \<in> insert f fs \<longleftrightarrow> 0 \<le> g \<and> (\<exists>b. (S(a \<mapsto> f)) b = Some g)" for g
  proof (cases "g = f")
    case True
    then show ?thesis using assms(3) by (auto intro: exI [of _ a])
  next
    case False
    then have "(\<exists>b. (S(a \<mapsto> f)) b = Some g) \<longleftrightarrow> (\<exists>b. S b = Some g)"
      using assms(2) by (metis fun_upd_apply option.distinct(1) option.inject)
    with False t(2) [of g] show ?thesis by simp
  qed
qed

lemma table_drop:
  assumes "table_ok S fs" and "S a = Some f"
  shows "table_ok (S(a := None)) (fs - {f})"
proof (rule table_okI)
  note t = table_okD [OF assms(1)]
  show "-1 \<le> g" if "(S(a := None)) b = Some g" for b g
    using that t(1) by (cases "b = a") auto
  show "b = c" if "(S(a := None)) b = Some g" "(S(a := None)) c = Some g" "0 \<le> g" for b c g
    using that t(3) [of b g c] by (cases "b = a"; cases "c = a") auto
  show "g \<in> fs - {f} \<longleftrightarrow> 0 \<le> g \<and> (\<exists>b. (S(a := None)) b = Some g)" for g
  proof (cases "g = f")
    case True
    then have "b = a" if "S b = Some g" "0 \<le> g" for b using t(3) [of b f a] that assms(2) by simp
    with True show ?thesis by (metis DiffD2 fun_upd_apply insertI1 option.distinct(1))
  next
    case False
    then have "(\<exists>b. (S(a := None)) b = Some g) \<longleftrightarrow> (\<exists>b. S b = Some g)"
      using assms(2) by (metis fun_upd_apply option.distinct(1) option.inject)
    with False t(2) [of g] show ?thesis by simp
  qed
qed

lemma table_close:
  assumes "table_ok S fs" and "S a = Some f"
  shows "table_ok (S(a \<mapsto> -1)) (fs - {f})"
proof (rule table_okI)
  note t = table_okD [OF table_drop [OF assms]]
  show "-1 \<le> g" if "(S(a \<mapsto> -1)) b = Some g" for b g
    using that t(1) [of b g] by (cases "b = a") auto
  show "b = c" if "(S(a \<mapsto> -1)) b = Some g" "(S(a \<mapsto> -1)) c = Some g" "0 \<le> g" for b c g
    using that t(3) [of b g c] by (cases "b = a"; cases "c = a") auto
  show "g \<in> fs - {f} \<longleftrightarrow> 0 \<le> g \<and> (\<exists>b. (S(a \<mapsto> -1)) b = Some g)" for g
  proof -
    have "(S(a := None)) b = Some g \<longleftrightarrow> (S(a \<mapsto> -1)) b = Some g" if "0 \<le> g" for b
      using that by (cases "b = a") auto
    with t(2) [of g] show ?thesis by blast
  qed
qed

text \<open>The invariant.\<close>

definition accounted :: "'h core_api \<Rightarrow> kernel \<Rightarrow> 'h world \<Rightarrow> bool" where
  "accounted C K w \<longleftrightarrow> table_ok (socks w) (open_fds K w) \<and> closes_own K (rev (calls w)) \<and>
     (\<forall>a \<in> dom (socks w). \<exists>h. deref C h (core w) = Some a)"

lemma accounted_talks:
  assumes "only_talks w v" and "accounted C K w"
  shows "accounted C K v"
  using assms neutral_calls [of _ K "rev (calls w)"]
  by (auto simp: only_talks_def accounted_def socks_def open_fds_def)

lemma accounted_same:
  assumes "core v = core w" and "calls v = calls w" and "socks v = socks w" and "accounted C K w"
  shows "accounted C K v"
  using assms by (simp add: accounted_def open_fds_def)

text \<open>Closing through a cell.\<close>

lemma accounted_close:
  assumes "accounted C K w" and "deref C h (core w) = Some a" and "sk_cells w a = Some sk"
    and "core v = core w" and "calls v = calls w @ [Sys_close (sk_socket sk)]"
    and "sk_cells v = (sk_cells w)(a \<mapsto> sk\<lparr>sk_socket := -1\<rparr>)"
  shows "accounted C K v"
proof -
  have t: "table_ok (socks w) (open_fds K w)" and s: "socks w a = Some (sk_socket sk)"
    using assms(1,3) by (simp_all add: accounted_def socks_def)
  have "socks v = (socks w)(a \<mapsto> -1)" by (auto simp: socks_def assms(6))
  moreover have "sk_socket sk = -1 \<or> sk_socket sk \<in> open_fds K w"
    using table_okD(1,2) [OF t] s by force
  ultimately show ?thesis
    using table_close [OF t s] assms(1,2) s
    by (auto simp: accounted_def open_fds_def assms(4,5))
qed

text \<open>Calls that open a descriptor, and what the history says afterwards.\<close>

fun opens :: "call \<Rightarrow> bool" where
  "opens (Sys_socket _ _ _) = True"
| "opens (Sys_accept _) = True"
| "opens _ = False"

lemma opens_eq:
  assumes "opens c" and "\<forall>c \<in> set cs. neutral c" and "calls v = calls w @ c # cs" and "fresh_kernel K"
  defines "r \<equiv> r_ret (K (calls w) c)"
  shows "open_fds K v = (if 0 \<le> r then insert r (open_fds K w) else open_fds K w)"
    and "closes_own K (rev (calls v)) = closes_own K (rev (calls w))"
    and "r \<notin> open_fds K w" and "-1 \<le> r"
proof -
  have rv: "rev (calls v) = rev cs @ c # rev (calls w)" using assms(3) by simp
  show "open_fds K v = (if 0 \<le> r then insert r (open_fds K w) else open_fds K w)"
    "closes_own K (rev (calls v)) = closes_own K (rev (calls w))"
    unfolding open_fds_def rv using assms(1) neutral_calls [OF assms(2), of K "c # rev (calls w)"]
    by (cases c; auto simp: r_def)+
  show "r \<notin> open_fds K w" "-1 \<le> r"
    using assms(1) fresh_kernelD [OF assms(4), of "calls w"]
    by (cases c; simp add: r_def open_fds_def)+
qed

lemma accounted_open:
  assumes "accounted C K w" and "fresh_kernel K" and "sk_cells w a = None"
    and "opens c" and "\<forall>c \<in> set cs. neutral c" and "calls v = calls w @ c # cs"
    and "0 \<le> r_ret (K (calls w) c)" and "sk_cells v = (sk_cells w)(a \<mapsto> sk)"
    and "sk_socket sk = r_ret (K (calls w) c)" and "deref C h (core w) = None"
    and "deref C h (core v) = Some a" and "\<forall>g. g \<noteq> h \<longrightarrow> deref C g (core v) = deref C g (core w)"
  shows "accounted C K v"
proof -
  note o = opens_eq [OF assms(4,5,6,2)]
  have t: "table_ok (socks w) (open_fds K w)" using assms(1) by (simp add: accounted_def)
  have s: "socks v = (socks w)(a \<mapsto> r_ret (K (calls w) c))"
    by (auto simp: socks_def assms(8,9))
  have "\<exists>g. deref C g (core v) = Some b" if "socks w b \<noteq> None" for b
  proof -
    have "b \<in> dom (socks w)" using that by auto
    then obtain g where g: "deref C g (core w) = Some b"
      using assms(1) unfolding accounted_def by blast
    then have "g \<noteq> h" using assms(10) by auto
    with g assms(12) show ?thesis by (intro exI [of _ g]) simp
  qed
  moreover have "table_ok (socks v) (open_fds K v)"
    unfolding s using table_open [OF t _ assms(7) o(3)] assms(3,7) o(1) by (simp add: socks_def)
  moreover have "closes_own K (rev (calls v))" using o(2) assms(1) by (simp add: accounted_def)
  ultimately show ?thesis using assms(11) by (auto simp: accounted_def s split: if_splits)
qed

lemma accounted_open_fails:
  assumes "accounted C K w" and "fresh_kernel K" and "sk_cells w a = None"
    and "opens c" and "\<forall>c \<in> set cs. neutral c" and "calls v = calls w @ c # cs"
    and "r_ret (K (calls w) c) < 0" and "sk_cells v = (sk_cells w)(a := None)" and "core v = core w"
  shows "accounted C K v"
proof -
  note o = opens_eq [OF assms(4,5,6,2)]
  have "socks v = socks w" using assms(3,8) by (auto simp: socks_def)
  then show ?thesis using assms(1,7,9) o(1,2) by (simp add: accounted_def)
qed

section \<open>Properties\<close>

text \<open>
  The operations on the sockets of a process: a cell is allocated where none is and where no
  handle points.
\<close>

definition unused :: "'h core_api \<Rightarrow> 'h world \<Rightarrow> addr option \<Rightarrow> bool" where
  "unused C w m \<longleftrightarrow> (\<forall>a. m = Some a \<longrightarrow> sk_cells w a = None \<and> (\<forall>k. deref C k (core w) \<noteq> Some a))"

inductive sk_life :: "'h core_api \<Rightarrow> kernel \<Rightarrow> net_api \<Rightarrow> 'h world \<Rightarrow> 'h world \<Rightarrow> bool" for C K N where
  create: "unused C w m \<Longrightarrow> ofc_socket_impl_create C K N fam st m g w = (h, w') \<Longrightarrow> sk_life C K N w w'"
| accept: "unused C w m \<Longrightarrow> ofc_socket_impl_accept C K N m g buf h ip port w = Some (r, w') \<Longrightarrow>
     sk_life C K N w w'"
| destroy: "ofc_socket_impl_destroy C K h w = Some w' \<Longrightarrow> sk_life C K N w w'"
| use_it: "socket_step C K N h w w' \<Longrightarrow> sk_life C K N w w'"

lemma accounted_create:
  assumes "lifecycle_laws C" and "fresh_kernel K" and "accounted C K w" and "unused C w m"
    and "ofc_socket_impl_create C K N fam st m g w = (h, w')"
  shows "accounted C K w'"
proof (cases m)
  case None
  then show ?thesis using assms(3,5) by (simp add: ofc_socket_impl_create_def)
next
  case (Some a)
  then have a: "sk_cells w a = None" "\<forall>k. deref C k (core w) \<noteq> Some a"
    using assms(4) by (simp_all add: unused_def)
  let ?fam = "if fam = OFC_FAMILY_IP then INET else INET6"
  let ?v = "if fam = OFC_FAMILY_IP then OFC_FAMILY_IP else OFC_FAMILY_IPV6"
  let ?c = "Sys_socket ?fam (stype_of st) (proto_of st ?v)"
  let ?r = "r_ret (K (calls w) ?c)"
  show ?thesis
  proof (cases "?r < 0")
    case True
    with assms(5) Some obtain x where
      "calls w' = calls w @ ?c # [Ofc_log ''socket error: %s, errno %d'' x]"
      "sk_cells w' = (sk_cells w)(a := None)" "core w' = core w"
      by (auto simp: ofc_socket_impl_create_def Let_def syscall_def split: if_splits)
    with True show ?thesis by (intro accounted_open_fails [OF assms(3,2) a(1), of ?c]) simp_all
  next
    case False
    obtain k s where k: "ofc_handle_create C OFC_HANDLE_SOCKET_IMPL a (core w) = (k, s)" by fastforce
    let ?cs = "(if st = SOCKET_TYPE_DGRAM then [Sys_setsockopt ?r SO_BROADCAST 1] else []) @
        [Sys_setsockopt ?r SO_NOSIGPIPE 1]"
    from False k assms(5) Some have "calls w' = calls w @ ?c # ?cs" "core w' = s"
      "\<exists>sk. sk_cells w' = (sk_cells w)(a \<mapsto> sk) \<and> sk_socket sk = ?r"
      by (auto simp: ofc_socket_impl_create_def Let_def syscall_def split: if_splits)
    moreover have "\<forall>c \<in> set ?cs. neutral c" by simp
    ultimately show ?thesis
      using accounted_open [OF assms(3,2) a(1), of ?c ?cs w' _ k] False
        lifecycle_lawsD(1) [OF assms(1) k a(2)] by auto
  qed
qed

lemma accounted_accept:
  assumes "handle_laws C" and "lifecycle_laws C" and "fresh_kernel K" and "accounted C K w"
    and "unused C w m" and "ofc_socket_impl_accept C K N m g buf h ip port w = Some (r, w')"
  shows "accounted C K w'"
proof (cases "deref C h (core w)")
  case None
  then have "w' = w"
    using assms(6) by (simp add: ofc_socket_impl_accept_def on_socket_def lock_h_None [OF assms(1)])
  with assms(4) show ?thesis by simp
next
  case (Some a)
  then obtain sk b where sk: "sk_cells w a = Some sk" "m = Some b"
    using assms(6) by (auto simp: ofc_socket_impl_accept_def on_socket_def lock_h_eq accept_body_def
        elim!: bind_SomeE)
  have b: "sk_cells w b = None" "\<forall>k. deref C k (core w) \<noteq> Some b"
    using assms(5) sk(2) by (simp_all add: unused_def)
  let ?c = "Sys_accept (sk_socket sk)" and ?s = "snd (ofc_handle_lock C h (core w))"
  let ?r = "r_ret (K (calls w) ?c)"
  show ?thesis
  proof (cases "?r = -1")
    case True
    have "calls w' = calls w @ ?c # []" "sk_cells w' = (sk_cells w)(b := None)" "core w' = core w"
      using assms(6) True Some sk
      by (auto simp: ofc_socket_impl_accept_def on_socket_def lock_h_eq unlock_h_def accept_body_def
          syscall_def Let_def unlock_after_lock [OF assms(1)])
    with True show ?thesis by (intro accounted_open_fails [OF assms(4,3) b(1), of ?c "[]"]) simp_all
  next
    case False
    then have pos: "0 \<le> ?r" using fresh_kernelD(4) [OF assms(3), of "calls w" "sk_socket sk"] by simp
    obtain k t where k: "ofc_handle_create C OFC_HANDLE_SOCKET_IMPL b ?s = (k, t)" by fastforce
    have same: "deref C x ?s = deref C x (core w)" for x
      by (rule core_reads_eqD(1) [OF handle_lawsD(3) [OF assms(1)]])
    have free: "\<forall>x. deref C x ?s \<noteq> Some b" using b(2) same by simp
    note cr = lifecycle_lawsD(1) [OF assms(2) k free]
    have un: "deref C x (ofc_handle_unlock C h t) = deref C x t" for x
      by (rule lifecycle_lawsD(4) [OF assms(2) _ b(2) k]) (simp add: Some)
    have w': "calls w' = calls w @ ?c # [Sys_setsockopt (sk_socket sk) SO_NOSIGPIPE 1]"
      "sk_cells w' = (sk_cells w)(b \<mapsto> g\<lparr>sk_socket := ?r\<rparr>)" "core w' = ofc_handle_unlock C h t"
      using assms(6) False Some sk k
      by (auto simp: ofc_socket_impl_accept_def on_socket_def lock_h_eq unlock_h_def accept_body_def
          syscall_def Let_def elim!: bind_SomeE)
    show ?thesis
      by (rule accounted_open [OF assms(4,3) b(1) _ _ w'(1) pos w'(2), of k])
        (use cr un w'(3) same in auto)
  qed
qed

lemma accounted_destroy:
  assumes "handle_laws C" and "lifecycle_laws C" and "accounted C K w"
    and "ofc_socket_impl_destroy C K h w = Some w'"
  shows "accounted C K w'"
proof (cases "deref C h (core w)")
  case None
  with assms show ?thesis by (simp add: ofc_socket_impl_destroy_def lock_h_None)
next
  case (Some a)
  then obtain sk where sk: "sk_cells w a = Some sk"
    using assms(4) by (auto simp: ofc_socket_impl_destroy_def lock_h_eq elim!: bind_SomeE)
  let ?s = "ofc_handle_unlock C h (ofc_handle_destroy C h (snd (ofc_handle_lock C h (core w))))"
  let ?cs = "if 0 \<le> sk_socket sk then [Sys_close (sk_socket sk)] else []"
  have w': "calls w' = calls w @ ?cs" "sk_cells w' = (sk_cells w)(a := None)" "core w' = ?s"
    using assms(4) Some sk
    by (auto simp: ofc_socket_impl_destroy_def lock_h_eq unlock_h_def destroy_h_def syscall_def Let_def)
  have t: "table_ok (socks w) (open_fds K w)" and s: "socks w a = Some (sk_socket sk)"
    using assms(3) sk by (simp_all add: accounted_def socks_def)
  have o: "sk_socket sk \<in> open_fds K w" if "0 \<le> sk_socket sk"
    using table_okD(2) [OF t] s that by blast
  have "socks w' = (socks w)(a := None)" by (auto simp: socks_def w'(2))
  moreover have "open_fds K w' = open_fds K w - {sk_socket sk}"
    using opened_ge [of "sk_socket sk" K "rev (calls w)"] by (auto simp: open_fds_def w'(1))
  moreover have "closes_own K (rev (calls w'))"
    using o assms(3) by (simp add: w'(1) accounted_def open_fds_def)
  moreover have "\<exists>g. deref C g (core w') = Some b" if "b \<noteq> a" "b \<in> dom (socks w)" for b
  proof -
    from assms(3) that(2) obtain g where g: "deref C g (core w) = Some b"
      unfolding accounted_def by blast
    then have "g \<noteq> h" using Some that(1) by auto
    with g Some show ?thesis
      by (intro exI [of _ g]) (simp add: w'(3) lifecycle_lawsD(2) [OF assms(2)])
  qed
  ultimately show ?thesis using table_drop [OF t s] by (auto simp: accounted_def)
qed

lemma accounted_write:
  assumes "accounted C K w" and "\<And>sk. sk_socket (f sk) = sk_socket sk"
  shows "accounted C K (sk_write C h f w)"
  by (rule accounted_same [OF _ _ _ assms(1)])
    (auto simp: frame socks_def sk_write_def assms(2) split: option.split)

lemma accounted_use:
  assumes "handle_laws C" and "accounted C K w" and "socket_step C K N h w w'"
  shows "accounted C K w'"
  using assms(3)
proof (cases rule: socket_step.cases)
  case (2 b)
  then have "on_socket C h False (close_body K) w = Some (b, w')" by (simp add: ofc_socket_impl_close_def)
  from close_op.on_socket_cases [OF assms(1) this] show ?thesis
    using assms(2) accounted_close [OF assms(2)] by (auto simp: close_body_def syscall_def)
next
  case (15 B t b)
  then obtain e where "w' = sk_write C h (sk_events_update (\<lambda>_. e)) w"
    using event_side(1) [OF assms(1)] by blast
  then show ?thesis using accounted_write [OF assms(2)] by simp
next
  case (16 p)
  then have "w' = sk_write C h (sk_revents_update (\<lambda>_. p)) w" by (rule event_side(2) [OF assms(1)])
  then show ?thesis using accounted_write [OF assms(2)] by simp
next
  case (17 p)
  then show ?thesis using event_side(3) [OF assms(1)] assms(2) by metis
next
  case (18 B t)
  then show ?thesis using event_side(4) [OF assms(1)] assms(2) by metis
next
  case (19 f)
  then show ?thesis using event_side(5) [OF assms(1)] assms(2) by metis
qed (use assms(1) in \<open>auto intro!: accounted_talks [OF _ assms(2)]
        simp: ofc_socket_impl_bind_def ofc_socket_impl_connect_def ofc_socket_impl_listen_def
        ofc_socket_impl_reuse_addr_def ofc_socket_impl_connected_def ofc_socket_impl_no_block_def
        ofc_socket_impl_send_def ofc_socket_impl_sendto_def ofc_socket_impl_recv_def
        ofc_socket_impl_recv_from_def ofc_socket_impl_get_addresses_def
        ofc_socket_impl_set_send_size_def ofc_socket_impl_set_recv_size_def
        dest: bind_talk.on_socket_talks connect_talk.on_socket_talks listen_talk.on_socket_talks
        option_talk.on_socket_talks peer_talk.on_socket_talks no_block_talk.on_socket_talks
        send_talk.on_socket_talks sendto_talk.on_socket_talks recv_talk.on_socket_talks
        recv_from_talk.on_socket_talks addresses_talk.on_socket_talks size_talk.on_socket_talks\<close>)

lemma accounted_step:
  assumes "handle_laws C" and "lifecycle_laws C" and "fresh_kernel K" and "accounted C K w"
    and "sk_life C K N w w'"
  shows "accounted C K w'"
  using assms(5)
  by (cases rule: sk_life.cases)
    (use assms in \<open>auto intro: accounted_create accounted_accept accounted_destroy accounted_use\<close>)

text \<open>
  C9: No descriptor is leaked and none is closed for somebody else. From a process without
  sockets, through any sequence of socket operations (creating, accepting, using, closing and
  destroying any number of sockets, with any answers and failures of the system): the descriptors
  the kernel has open are exactly those the allocated cells hold, each in one cell; every cell is
  named by a live handle; and each \<open>close\<close> was given an open descriptor or -1.
\<close>

theorem descriptors_accounted:
  assumes "handle_laws C" and "lifecycle_laws C" and "fresh_kernel K"
    and "sk_cells w = Map.empty" and "calls w = []" and "(sk_life C K N)\<^sup>*\<^sup>* w w'"
  shows "(\<forall>f. f \<in> open_fds K w' \<longleftrightarrow>
      0 \<le> f \<and> (\<exists>!a. map_option sk_socket (sk_cells w' a) = Some f)) \<and>
    (\<forall>a \<in> dom (sk_cells w'). \<exists>h. deref C h (core w') = Some a) \<and> closes_own K (rev (calls w'))"
proof -
  have "accounted C K w"
    using assms(4,5) by (simp add: accounted_def table_ok_def socks_def open_fds_def)
  with assms(6) have acc: "accounted C K w'"
    by (induction rule: rtranclp_induct) (auto intro: accounted_step [OF assms(1-3)])
  then have t: "table_ok (socks w') (open_fds K w')" by (simp add: accounted_def)
  have dom: "dom (sk_cells w') = dom (socks w')" by (auto simp: socks_def)
  have "f \<in> open_fds K w' \<longleftrightarrow> 0 \<le> f \<and> (\<exists>!a. socks w' a = Some f)" for f
    using table_okD(2,3) [OF t] by blast
  then show ?thesis using acc unfolding accounted_def dom by (auto simp: socks_def)
qed

text \<open>A kernel that answers each opening call with the number of calls so far.\<close>

definition demo_counter :: kernel where
  "demo_counter cs c = \<lparr>r_ret = int (length cs), r_errno = 0, r_bytes = replicate 28 0\<rparr>"

lemma demo_counter_fresh: "fresh_kernel demo_counter"
proof -
  have "opened demo_counter cs \<subseteq> {f. f < int (length cs)}" for cs
    by (induction cs) (auto simp: demo_counter_def split: call.split)
  then have "int (length cs) \<notin> opened demo_counter (rev cs)" for cs
    by (metis length_rev less_irrefl mem_Collect_eq subsetD)
  then show ?thesis by (simp add: fresh_kernel_def demo_counter_def)
qed

theorem descriptors_accounted_witness:
  "\<exists>h w'. ofc_socket_impl_create demo_api demo_counter demo_net OFC_FAMILY_IP SOCKET_TYPE_STREAM
      (Some 40) demo_cell (demo_world demo_empty) = (h, w') \<and>
     0 \<in> open_fds demo_counter w' \<and> closes_own demo_counter (rev (calls w'))"
proof -
  obtain h w' where c: "ofc_socket_impl_create demo_api demo_counter demo_net OFC_FAMILY_IP
      SOCKET_TYPE_STREAM (Some 40) demo_cell (demo_world demo_empty) = (h, w')" by fastforce
  have "unused demo_api (demo_world demo_empty) (Some 40)" by (simp add: unused_def demo_deref_iff)
  from sk_life.create [OF this c]
  have "(sk_life demo_api demo_counter demo_net)\<^sup>*\<^sup>* (demo_world demo_empty) w'" by blast
  note d = descriptors_accounted [OF demo_handle_laws demo_lifecycle_laws demo_counter_fresh _ _ this]
  have "sk_cells w' = (\<lambda>a. if a = 40 then Some \<lparr>sk_socket = 0, sk_family = OFC_FAMILY_IP,
      sk_events = 0, sk_revents = 0, sk_ip = (sk_ip demo_cell)\<rparr> else None)"
    using c by (auto simp: ofc_socket_impl_create_def syscall_def Let_def demo_counter_def
        demo_cell_def demo_net_def fun_eq_iff)
  then have "\<exists>!a. map_option sk_socket (sk_cells w' a) = Some 0" by simp
  with c d show ?thesis by simp
qed

end
