(* ===== verification/Process_Darwin.thy ===== *)
theory Process_Darwin
  imports Demo_Core
begin

text \<open>
  Processes (\<open>src/process_darwin.c\<close>): starting a daemon through two forks, the handle of a process,
  terminating it, signals, and the end of this process.

  A fork makes two processes that run the same code with different results; each of the three
  processes of \<open>ofc_process_exec_impl\<close> is a function that gives the list of what it does. The
  record \<open>exec_kernel\<close> says how the system answers; \<open>uninit\<close> is what the local variable \<open>pid2\<close>
  of the original process holds, which is assigned in its child only.
\<close>

record passwd =
  pw_uid :: int
  pw_gid :: int

record exec_kernel =
  ek_fork1 :: int \<comment> \<open>the first \<open>fork\<close>, as the original process sees it\<close>
  ek_fork2 :: int \<comment> \<open>the second, as the first child sees it\<close>
  ek_getpwnam :: "string \<Rightarrow> passwd option"
  ek_execve :: "int option" \<comment> \<open>\<open>None\<close>: it succeeds and does not return\<close>

datatype proc_act =
    P_fork | P_getpwnam string | P_setgid int | P_setuid int | P_execve string "string list"
  | P_console string | P_abort | P_exit int | P_waitpid int

definition EX_OK :: int where "EX_OK = 0"
definition EX_SOFTWARE :: int where "EX_SOFTWARE = 70"
definition SIGTERM :: int where "SIGTERM = 15"

section \<open>Starting a daemon\<close>

text \<open>\<open>ofc_process_crash_impl\<close> writes its text to the console and aborts.\<close>

definition ofc_process_crash_impl :: "string \<Rightarrow> proc_act list" where
  "ofc_process_crash_impl obuf = [P_console obuf, P_abort]"

text \<open>The second child: it becomes the user, if there is one, and then the daemon.\<close>

definition daemon_part ::
  "exec_kernel \<Rightarrow> string option \<Rightarrow> string \<Rightarrow> string list \<Rightarrow> proc_act list" where
  "daemon_part K cuname cname argv =
     (case cuname of
        None \<Rightarrow> []
      | Some u \<Rightarrow> P_getpwnam u #
          (case ek_getpwnam K u of None \<Rightarrow> [] | Some p \<Rightarrow> [P_setgid (pw_gid p), P_setuid (pw_uid p)])) @
     [P_execve cname argv] @
     (case ek_execve K of
        None \<Rightarrow> []
      | Some r \<Rightarrow> if r < 0 then ofc_process_crash_impl ''Unable to Exec the Daemon''
                  else [P_exit EX_SOFTWARE])"

definition first_child_part :: "exec_kernel \<Rightarrow> proc_act list" where
  "first_child_part K =
     P_fork # (if ek_fork2 K < 0 then ofc_process_crash_impl ''Unable to Fork Second Process''
               else [P_exit EX_OK])"

text \<open>The status \<open>waitpid\<close> stores: the exit code in the second byte, or the signal (6 for \<open>abort\<close>).\<close>

definition status_of :: "proc_act list \<Rightarrow> int" where
  "status_of acts = (case last acts of P_exit c \<Rightarrow> c * 256 | _ \<Rightarrow> 6)"

text \<open>The original process; \<open>None\<close>: it has aborted.\<close>

definition ofc_process_exec_impl ::
  "'h core_api \<Rightarrow> handle \<Rightarrow> exec_kernel \<Rightarrow> nat \<Rightarrow> 'h world \<Rightarrow> (handle \<times> 'h world) option" where
  "ofc_process_exec_impl C OFC_INVALID_HANDLE_VALUE K uninit w =
     (if ek_fork1 K < 0 then None
      else
        let ret = status_of (first_child_part K) in
        Some (if ret = EX_OK
              then let (h, s) = ofc_handle_create C OFC_HANDLE_PROCESS uninit (core w) in (h, w\<lparr>core := s\<rparr>)
              else (OFC_INVALID_HANDLE_VALUE, w)))"

section \<open>The handle of a process\<close>

text \<open>The object of a process handle is the process id itself; a null pointer is id 0.\<close>

definition pid_of :: "addr option \<Rightarrow> int" where
  "pid_of p = (case p of None \<Rightarrow> 0 | Some a \<Rightarrow> signed_take_bit 31 (int a))"

definition ofc_process_get_impl :: "int \<Rightarrow> int" where
  "ofc_process_get_impl getpid = getpid"

definition ofc_process_get_id_impl :: "'h core_api \<Rightarrow> handle \<Rightarrow> 'h world \<Rightarrow> int \<times> 'h world" where
  "ofc_process_get_id_impl C h w =
     (let (p, w) = lock_h C h w; pid = pid_of p
      in (pid, if pid \<noteq> 0 then unlock_h C h w else w))"

definition ofc_process_kill_impl :: "int \<Rightarrow> 'h world \<Rightarrow> 'h world" where
  "ofc_process_kill_impl pid w = w\<lparr>calls := calls w @ [Sys_kill pid SIGTERM]\<rparr>"

definition ofc_process_term_impl :: "'h core_api \<Rightarrow> handle \<Rightarrow> 'h world \<Rightarrow> 'h world" where
  "ofc_process_term_impl C h w =
     (let (p, w) = lock_h C h w;
          w = w\<lparr>calls := calls w @ [Sys_kill (pid_of p) SIGTERM]\<rparr>;
          w = destroy_h C h w
      in unlock_h C h w)"

section \<open>Signals\<close>

record signal_state =
  blocked :: "int set"
  handlers :: "int \<rightharpoonup> nat"

definition ofc_process_block_signal :: "int \<Rightarrow> signal_state \<Rightarrow> signal_state" where
  "ofc_process_block_signal sig s = s\<lparr>blocked := blocked s \<union> {sig}\<rparr>"

definition ofc_process_unblock_signal :: "int \<Rightarrow> signal_state \<Rightarrow> signal_state" where
  "ofc_process_unblock_signal sig s = s\<lparr>blocked := blocked s - {sig}\<rparr>"

text \<open>\<open>ok\<close>: whether \<open>sigaction\<close> returned 0.\<close>

definition ofc_process_term_trap_impl :: "bool \<Rightarrow> nat \<Rightarrow> signal_state \<Rightarrow> bool \<times> signal_state" where
  "ofc_process_term_trap_impl ok trap s =
     (if ok then (True, s\<lparr>handlers := (handlers s)(SIGTERM \<mapsto> trap)\<rparr>) else (False, s))"

definition ofc_process_relative_addr_impl :: "'a \<Rightarrow> 'a" where
  "ofc_process_relative_addr_impl a = a"

section \<open>Properties\<close>

text \<open>What happens before the program is replaced.\<close>

definition before_exec :: "proc_act list \<Rightarrow> proc_act list" where
  "before_exec acts = takeWhile (\<lambda>a. case a of P_execve _ _ \<Rightarrow> False | _ \<Rightarrow> True) acts"

text \<open>
  The daemon is started under the group and user of the named account, group first, when that
  account exists; when the name is unknown to the system the program is started all the same, with
  the identity of the caller.
\<close>

theorem daemon_identity:
  assumes "cuname = Some u"
  shows "\<exists>rest. daemon_part K cuname cname argv = before_exec (daemon_part K cuname cname argv) @
      P_execve cname argv # rest \<and>
    before_exec (daemon_part K cuname cname argv) = P_getpwnam u #
      (case ek_getpwnam K u of None \<Rightarrow> [] | Some p \<Rightarrow> [P_setgid (pw_gid p), P_setuid (pw_uid p)])"
  using assms by (cases "ek_getpwnam K u") (simp_all add: daemon_part_def before_exec_def)

definition demo_exec :: exec_kernel where
  "demo_exec = \<lparr>ek_fork1 = 70, ek_fork2 = 71, ek_getpwnam = (\<lambda>u. None), ek_execve = None\<rparr>"

theorem daemon_identity_witness:
  "before_exec (daemon_part demo_exec (Some ''nobody'') ''/bin/d'' []) = [P_getpwnam ''nobody'']"
  using daemon_identity [OF refl, of demo_exec "''nobody''" "''/bin/d''" "[]"] by (simp add: demo_exec_def)

text \<open>
  \<open>ofc_process_exec_impl\<close> answers with a handle exactly when the second fork succeeded, and the
  process that handle names is not the daemon: its id is what the caller's uninitialised variable
  held, whatever id the second fork gave. Reading the id back gives that value.
\<close>

theorem exec_handle_uninitialised:
  assumes "handle_laws C" and "lifecycle_laws C" and "\<forall>g. deref C g (core w) \<noteq> Some uninit"
    and "0 < ek_fork1 K" and "ek_fork2 K \<noteq> 0" and "0 < uninit" and "uninit < 2 ^ 31"
    and "ofc_process_exec_impl C bad K uninit w = Some (h, w')"
  shows "(0 < ek_fork2 K \<longrightarrow> deref C h (core w') = Some uninit \<and>
      fst (ofc_process_get_id_impl C h w') = int uninit) \<and>
    (ek_fork2 K < 0 \<longrightarrow> h = bad \<and> w' = w)"
proof -
  obtain k s where k: "ofc_handle_create C OFC_HANDLE_PROCESS uninit (core w) = (k, s)" by fastforce
  have live: "deref C k s = Some uninit" using lifecycle_lawsD(1) [OF assms(2) k assms(3)] by blast
  have pid: "pid_of (Some uninit) = int uninit"
    using assms(7) unfolding pid_of_def option.case by (intro signed_take_bit_int_eq_self) simp_all
  show ?thesis
    using assms(4-6,8) k live pid
    by (cases "0 < ek_fork2 K")
      (auto simp: ofc_process_exec_impl_def first_child_part_def ofc_process_crash_impl_def
        status_of_def EX_OK_def Let_def ofc_process_get_id_impl_def lock_h_eq)
qed

theorem exec_handle_uninitialised_witness:
  "\<exists>h w'. ofc_process_exec_impl demo_api OFC_HANDLE_NULL demo_exec 12345 (demo_world demo_empty) = Some (h, w') \<and>
     fst (ofc_process_get_id_impl demo_api h w') = 12345"
proof -
  obtain h w' where e: "ofc_process_exec_impl demo_api OFC_HANDLE_NULL demo_exec 12345 (demo_world demo_empty) =
      Some (h, w')"
    by (cases "ofc_process_exec_impl demo_api OFC_HANDLE_NULL demo_exec 12345 (demo_world demo_empty)")
      (auto simp: ofc_process_exec_impl_def demo_exec_def)
  have "\<forall>g. deref demo_api g (core (demo_world demo_empty)) \<noteq> Some 12345" by (simp add: demo_deref_iff)
  from exec_handle_uninitialised [OF demo_handle_laws demo_lifecycle_laws this _ _ _ _ e] e
  show ?thesis by (auto simp: demo_exec_def)
qed

text \<open>
  \<open>ofc_process_term_impl\<close> signals the process its handle names and makes the handle dead; on a
  handle that is already dead it sends \<open>SIGTERM\<close> to process 0, that is to the caller's own group.
\<close>

theorem term_signals:
  assumes "handle_laws C" and "lifecycle_laws C"
  shows "calls (ofc_process_term_impl C h w) = calls w @ [Sys_kill (pid_of (deref C h (core w))) SIGTERM] \<and>
    (deref C h (core w) \<noteq> None \<longrightarrow> deref C h (core (ofc_process_term_impl C h w)) = None) \<and>
    (deref C h (core w) = None \<longrightarrow> calls (ofc_process_term_impl C h w) = calls w @ [Sys_kill 0 SIGTERM])"
  using lifecycle_lawsD(2) [OF assms(2), of h "core w" h]
  by (auto simp: ofc_process_term_impl_def lock_h_eq unlock_h_def destroy_h_def Let_def pid_of_def)

theorem term_signals_witness:
  "calls (ofc_process_term_impl demo_api (Handle 9) (demo_world demo_empty)) = [Sys_kill 0 SIGTERM]"
  using term_signals [OF demo_handle_laws demo_lifecycle_laws, of "Handle 9" "demo_world demo_empty"]
  by (auto simp: pid_of_def)

end
