(* ===== verification/Net_Darwin.thy ===== *)
theory Net_Darwin
  imports Sockaddr Process_Darwin
begin

text \<open>
  The network configuration (\<open>src/net_darwin.c\<close>): counting the interfaces \<open>getifaddrs\<close> lists, giving
  the address, mask and broadcast address of one of them, and resolving a name. The build
  options are the fields of \<open>net_config\<close>, the constants of of_core those of \<open>net_consts\<close>; the
  answers of \<open>getifaddrs\<close> and \<open>getaddrinfo\<close> are arguments (\<open>None\<close>: the call failed).
\<close>

text \<open>\<open>signal(SIGPIPE, SIG_IGN)\<close>: a write to a closed connection answers \<open>EPIPE\<close> instead of a signal.\<close>

definition SIGPIPE :: int where "SIGPIPE = 13"
definition SIG_IGN :: nat where "SIG_IGN = 1"

definition ofc_net_init_impl :: "signal_state \<Rightarrow> signal_state" where
  "ofc_net_init_impl s = s\<lparr>handlers := (handlers s)(SIGPIPE \<mapsto> SIG_IGN)\<rparr>"

record net_config =
  OFC_DISCOVER_IPV4 :: bool
  OFC_DISCOVER_IPV6 :: bool
  OFC_DARWIN_IGNORE_EN5 :: bool
  OFC_LOOPBACK :: bool

record net_consts =
  OFC_INADDR_NONE :: u32
  OFC_INADDR_BROADCAST :: u32
  OFC_INADDR_LOOPBACK :: u32
  ofc_in6addr_bcast :: "u8 list \<times> u32"
  ofc_in6addr_loopback :: "u8 list \<times> u32"

text \<open>A \<open>struct ifaddrs\<close>; the two pointers may be null.\<close>

record ifaddrs =
  ifa_name :: string
  ifa_flags :: u32
  ifa_addr :: "u8 list option"
  ifa_netmask :: "u8 list option"

definition IFF_UP :: u32 where "IFF_UP = 1"
definition IFF_LOOPBACK :: u32 where "IFF_LOOPBACK = 8"

section \<open>Counting and finding interfaces\<close>

definition match_families :: "net_config \<Rightarrow> ifaddrs \<Rightarrow> bool option" where
  "match_families G i = do {
     let ret = False;
     ret \<leftarrow> (if OFC_DISCOVER_IPV4 G
             then do { sa \<leftarrow> ifa_addr i; Some (if sa_family sa = AF_INET then True else ret) }
             else Some ret);
     (if OFC_DISCOVER_IPV6 G
      then do { sa \<leftarrow> ifa_addr i; Some (if sa_family sa = AF_INET6 then True else ret) }
      else Some ret)
   }"

text \<open>The test the counting loop makes of an entry.\<close>

definition wanted :: "net_config \<Rightarrow> ifaddrs \<Rightarrow> bool option" where
  "wanted G i =
     (if OFC_DARWIN_IGNORE_EN5 G \<and> ifa_name i = ''en5'' then Some False
      else if OFC_LOOPBACK G
      then (if ifa_flags i AND IFF_UP \<noteq> 0 then match_families G i else Some False)
      else (if \<not> (ifa_flags i AND IFF_LOOPBACK \<noteq> 0) \<and> ifa_flags i AND IFF_UP \<noteq> 0
            then match_families G i else Some False))"

fun count_loop :: "net_config \<Rightarrow> ifaddrs list \<Rightarrow> int \<Rightarrow> int option" where
  "count_loop G [] n = Some n"
| "count_loop G (i # is) n = do { b \<leftarrow> wanted G i; count_loop G is (if b then n + 1 else n) }"

definition ofc_net_interface_count_impl :: "net_config \<Rightarrow> ifaddrs list option \<Rightarrow> int option" where
  "ofc_net_interface_count_impl G ifap =
     (case ifap of None \<Rightarrow> Some 0 | Some is \<Rightarrow> count_loop G is 0)"

text \<open>The search of \<open>ofc_net_interface_addr_impl\<close> has its own copy of the test.\<close>

definition sought :: "net_config \<Rightarrow> ifaddrs \<Rightarrow> bool option" where
  "sought G i =
     (let ignore = False;
          ignore = (if OFC_DARWIN_IGNORE_EN5 G \<and> ifa_name i = ''en5'' then True else ignore)
      in if \<not> ignore then
           if OFC_LOOPBACK G
           then (if ifa_flags i AND IFF_UP \<noteq> 0 then match_families G i else Some False)
           else (if \<not> (ifa_flags i AND IFF_LOOPBACK \<noteq> 0) \<and> ifa_flags i AND IFF_UP \<noteq> 0
                 then match_families G i else Some False)
         else Some False)"

fun find_loop :: "net_config \<Rightarrow> int \<Rightarrow> ifaddrs list \<Rightarrow> int \<Rightarrow> ifaddrs option option" where
  "find_loop G index [] n = Some None"
| "find_loop G index (i # is) n = do {
     b \<leftarrow> sought G i;
     if b then if n = index then Some (Some i) else find_loop G index is (n + 1)
     else find_loop G index is n
   }"

section \<open>The addresses of an interface\<close>

definition inet_of :: "net_api \<Rightarrow> u8 list \<Rightarrow> u32" where
  "inet_of N sa = OFC_NET_NTOL N (take 4 (drop 4 sa))"

definition inet6_of :: "u8 list \<Rightarrow> u8 list" where
  "inet6_of sa = map (\<lambda>k. sa ! (8 + k)) [0..<16]"

definition scope_of :: "u8 list \<Rightarrow> u32" where
  "scope_of sa = ucast (sa ! 24) OR push_bit 8 (ucast (sa ! 25)) OR push_bit 16 (ucast (sa ! 26)) OR
     push_bit 24 (ucast (sa ! 27))"

text \<open>A write through a pointer that may be null, of a value that need not exist then.\<close>

definition store :: "OFC_IPADDR option \<Rightarrow> (OFC_IPADDR \<Rightarrow> OFC_IPADDR option) \<Rightarrow> OFC_IPADDR option option" where
  "store p f = (case p of None \<Rightarrow> Some None | Some v \<Rightarrow> map_option Some (f v))"

definition put_inet :: "u32 \<Rightarrow> OFC_IPADDR \<Rightarrow> OFC_IPADDR" where
  "put_inet a v = v\<lparr>ip_version := OFC_FAMILY_IP, ipv4_addr := a\<rparr>"

definition put_inet6 :: "u8 list \<Rightarrow> u32 \<Rightarrow> OFC_IPADDR \<Rightarrow> OFC_IPADDR" where
  "put_inet6 a s v = v\<lparr>ip_version := OFC_FAMILY_IPV6, s6_addr := a, scope := s\<rparr>"

type_synonym addr_triple = "OFC_IPADDR option \<times> OFC_IPADDR option \<times> OFC_IPADDR option"

definition describe :: "net_api \<Rightarrow> net_consts \<Rightarrow> ifaddrs \<Rightarrow> addr_triple \<Rightarrow> addr_triple option" where
  "describe N D i = (\<lambda>(pinaddr, pbcast, pmask). do {
     sa \<leftarrow> ifa_addr i;
     if sa_family sa = AF_INET then do {
       pinaddr \<leftarrow> store pinaddr (\<lambda>v. Some (put_inet (inet_of N sa) v));
       pmask \<leftarrow> store pmask (\<lambda>v. do { m \<leftarrow> ifa_netmask i; Some (put_inet (inet_of N m) v) });
       pbcast \<leftarrow> store pbcast (\<lambda>v.
         if \<not> (ifa_flags i AND IFF_LOOPBACK \<noteq> 0) then do {
           m \<leftarrow> ifa_netmask i;
           Some (put_inet ((OFC_INADDR_BROADCAST D AND NOT (inet_of N m)) OR inet_of N sa) v)
         } else Some (put_inet (OFC_INADDR_LOOPBACK D) v));
       Some (pinaddr, pbcast, pmask)
     } else if sa_family sa = AF_INET6 then do {
       let sc = scope_of sa;
       pinaddr \<leftarrow> store pinaddr (\<lambda>v. Some (put_inet6 (inet6_of sa) sc v));
       pmask \<leftarrow> store pmask (\<lambda>v. do { m \<leftarrow> ifa_netmask i; Some (put_inet6 (inet6_of m) sc v) });
       pbcast \<leftarrow> store pbcast (\<lambda>v.
         Some (put_inet6 (fst (if \<not> (ifa_flags i AND IFF_LOOPBACK \<noteq> 0) then ofc_in6addr_bcast D
                               else ofc_in6addr_loopback D)) sc v));
       Some (pinaddr, pbcast, pmask)
     } else Some (pinaddr, pbcast, pmask)
   })"

definition no_address :: "net_consts \<Rightarrow> OFC_IPADDR option \<Rightarrow> OFC_IPADDR option" where
  "no_address D = map_option (put_inet (OFC_INADDR_NONE D))"

definition ofc_net_interface_addr_impl ::
  "net_config \<Rightarrow> net_api \<Rightarrow> net_consts \<Rightarrow> ifaddrs list option \<Rightarrow> int \<Rightarrow> addr_triple \<Rightarrow>
   addr_triple option" where
  "ofc_net_interface_addr_impl G N D ifap index = (\<lambda>(pinaddr, pbcast, pmask).
     let t = (no_address D pinaddr, no_address D pbcast, no_address D pmask)
     in case ifap of
          None \<Rightarrow> Some t
        | Some is \<Rightarrow> do {
            f \<leftarrow> find_loop G index is 0;
            (case f of None \<Rightarrow> Some t | Some i \<Rightarrow> describe N D i t)
          })"

definition ofc_net_interface_wins_impl ::
  "int option \<Rightarrow> 'p option option \<Rightarrow> int option \<times> 'p option option" where
  "ofc_net_interface_wins_impl num_wins winslist =
     (map_option (\<lambda>_. 0) num_wins, map_option (\<lambda>_. None) winslist)"

section \<open>Resolving a name\<close>

record addrinfo =
  ai_family :: u8
  ai_addr :: "u8 list"

text \<open>
  The hints: \<open>ai_family\<close> (0 for \<open>AF_UNSPEC\<close>) and \<open>ai_flags\<close>. A build with neither family is an
  \<open>#error\<close> of the preprocessor, so the last \<open>else\<close> is the build with IPv4 only.
\<close>

definition AI_NUMERICHOST :: u32 where "AI_NUMERICHOST = 0x0004"
definition AI_ADDRCONFIG :: u32 where "AI_ADDRCONFIG = 0x0400"

definition hints_of :: "net_config \<Rightarrow> bool \<Rightarrow> u8 \<times> u32" where
  "hints_of G numeric =
     (if OFC_DISCOVER_IPV6 G then if OFC_DISCOVER_IPV4 G then 0 else AF_INET6 else AF_INET,
      if numeric then AI_ADDRCONFIG OR AI_NUMERICHOST else AI_ADDRCONFIG)"

definition put_addrinfo :: "net_api \<Rightarrow> addrinfo \<Rightarrow> OFC_IPADDR \<Rightarrow> OFC_IPADDR" where
  "put_addrinfo N p v =
     (if ai_family p = AF_INET then put_inet (inet_of N (ai_addr p)) v
      else if ai_family p = AF_INET6 then put_inet6 (inet6_of (ai_addr p)) (scope_of (ai_addr p)) v
      else v)"

text \<open>The loop over the results: \<open>n\<close> is \<open>*num_addrs\<close>, \<open>i\<close> the next element of the caller's array.\<close>

fun resolve_loop ::
  "net_api \<Rightarrow> nat \<Rightarrow> addrinfo list \<Rightarrow> nat \<Rightarrow> OFC_IPADDR list \<Rightarrow> (nat \<times> OFC_IPADDR list) option" where
  "resolve_loop N n [] i ip = Some (i, ip)"
| "resolve_loop N n (p # ps) i ip =
     (if i < n then
        if i < length ip then resolve_loop N n ps (i + 1) (ip[i := put_addrinfo N p (ip ! i)]) else None
      else Some (i, ip))"

definition ofc_net_resolve_dns_name_impl ::
  "net_config \<Rightarrow> net_api \<Rightarrow> (string \<Rightarrow> int) \<Rightarrow> (string \<Rightarrow> u8 \<times> u32 \<Rightarrow> addrinfo list option) \<Rightarrow>
   string \<Rightarrow> u16 \<Rightarrow> OFC_IPADDR list \<Rightarrow> (u16 \<times> OFC_IPADDR list) option" where
  "ofc_net_resolve_dns_name_impl G N pton getaddrinfo name num_addrs ip =
     (case getaddrinfo name (hints_of G (pton name \<noteq> 0)) of
        None \<Rightarrow> Some (0, ip)
      | Some res \<Rightarrow> do {
          (i, ip) \<leftarrow> resolve_loop N (unat num_addrs) res 0 ip;
          Some (of_nat i, ip)
        })"

section \<open>Lemmas\<close>

text \<open>Entries whose address is there.\<close>

definition addressed :: "ifaddrs list \<Rightarrow> bool" where
  "addressed is \<longleftrightarrow> (\<forall>i \<in> set is. ifa_addr i \<noteq> None)"

text \<open>The interfaces that count, in order.\<close>

definition usable_ifs :: "net_config \<Rightarrow> ifaddrs list \<Rightarrow> ifaddrs list" where
  "usable_ifs G is = filter (\<lambda>i. wanted G i = Some True) is"

lemma sought_eq [simp]: "sought G i = wanted G i"
  by (simp add: sought_def wanted_def Let_def)

lemma wanted_total: "ifa_addr i \<noteq> None \<Longrightarrow> \<exists>b. wanted G i = Some b"
  by (auto simp: wanted_def match_families_def)

lemma count_loop_eq: "addressed is \<Longrightarrow> count_loop G is n = Some (n + int (length (usable_ifs G is)))"
proof (induction "is" arbitrary: n)
  case (Cons i "is")
  then obtain b where "wanted G i = Some b" using wanted_total [of i G] by (auto simp: addressed_def)
  with Cons show ?case by (cases b) (simp_all add: addressed_def usable_ifs_def)
qed (simp add: usable_ifs_def)

lemma find_loop_eq:
  "addressed is \<Longrightarrow> n \<le> index \<Longrightarrow> find_loop G index is n =
    Some (if nat (index - n) < length (usable_ifs G is) then Some (usable_ifs G is ! nat (index - n)) else None)"
proof (induction "is" arbitrary: n)
  case (Cons i "is")
  then obtain b where b: "wanted G i = Some b" using wanted_total [of i G] by (auto simp: addressed_def)
  have a: "addressed is" using Cons.prems(1) by (simp add: addressed_def)
  show ?case
  proof (cases "b \<and> n \<noteq> index")
    case True
    then have "nat (index - n) = Suc (nat (index - (n + 1)))" using Cons.prems(2) by auto
    with True Cons.IH [OF a, of "n + 1"] Cons.prems(2) b show ?thesis by (simp add: usable_ifs_def)
  next
    case False
    with Cons.IH [OF a Cons.prems(2)] b show ?thesis by (cases b) (simp_all add: usable_ifs_def)
  qed
qed (simp add: usable_ifs_def)

lemma find_loop_negative: "addressed is \<Longrightarrow> index < n \<Longrightarrow> find_loop G index is n = Some None"
proof (induction "is" arbitrary: n)
  case (Cons i "is")
  then obtain b where "wanted G i = Some b" using wanted_total [of i G] by (auto simp: addressed_def)
  with Cons show ?case by (cases b) (simp_all add: addressed_def)
qed simp

lemma resolve_loop_eq:
  "i \<le> n \<Longrightarrow> n \<le> length ip \<Longrightarrow> resolve_loop N n ps i ip = Some (min n (i + length ps),
     take i ip @ map (\<lambda>(p, v). put_addrinfo N p v) (zip ps (take (n - i) (drop i ip))) @
       drop (min n (i + length ps)) ip)"
proof (induction ps arbitrary: i ip)
  case (Cons p ps)
  show ?case
  proof (cases "i < n")
    case True
    let ?ip = "ip[i := put_addrinfo N p (ip ! i)]"
    have "i < length ip" using True Cons.prems by simp
    then have t: "take (Suc i) ?ip = take i ip @ [put_addrinfo N p (ip ! i)]"
        "drop (Suc i) ?ip = drop (Suc i) ip" "drop i ip = ip ! i # drop (Suc i) ip"
        "take (n - i) (drop i ip) = ip ! i # take (n - Suc i) (drop (Suc i) ip)"
      using True by (simp_all add: take_Suc_conv_app_nth Cons_nth_drop_Suc take_Cons' flip: Cons_nth_drop_Suc)
    have d: "drop (min n (Suc (i + length ps))) ?ip = drop (min n (Suc (i + length ps))) ip"
      using True by (simp add: drop_update_cancel)
    show ?thesis
      using Cons.IH [of "Suc i" ?ip] Cons.prems True \<open>i < length ip\<close> t d by simp
  next
    case False
    then have "i = n" using Cons.prems by simp
    then show ?thesis by simp
  qed
qed simp

section \<open>Properties\<close>

text \<open>
  C27: Counting and indexing agree: on a list in which every entry has an address,
  \<open>ofc_net_interface_addr_impl\<close> with an index below \<open>ofc_net_interface_count_impl\<close> describes the
  entry of that position among the interfaces that count, and with any other index, a negative one
  included, it leaves "no address" in all three results.
\<close>

theorem interface_enumeration:
  assumes "addressed is"
  shows "\<exists>n. ofc_net_interface_count_impl G (Some is) = Some n \<and> n = int (length (usable_ifs G is)) \<and>
    (\<forall>index. ofc_net_interface_addr_impl G N D (Some is) index (a, b, m) =
      (let t = (no_address D a, no_address D b, no_address D m) in
       if 0 \<le> index \<and> index < n then describe N D (usable_ifs G is ! nat index) t else Some t))"
proof -
  have "find_loop G index is 0 = Some (if 0 \<le> index \<and> index < int (length (usable_ifs G is))
      then Some (usable_ifs G is ! nat index) else None)" for index
  proof (cases "0 \<le> index")
    case True
    then have "nat index < length (usable_ifs G is) \<longleftrightarrow> index < int (length (usable_ifs G is))" by auto
    then show ?thesis using find_loop_eq [OF assms True, of G] True by simp
  next
    case False
    then show ?thesis using find_loop_negative [OF assms, of index 0 G] by simp
  qed
  then show ?thesis
    by (simp add: ofc_net_interface_count_impl_def count_loop_eq [OF assms]
        ofc_net_interface_addr_impl_def Let_def)
qed

definition demo_if :: ifaddrs where
  "demo_if = \<lparr>ifa_name = ''en0'', ifa_flags = 1,
     ifa_addr = Some ([16, 2, 0, 0, 192, 168, 7, 20] @ replicate 8 0),
     ifa_netmask = Some ([16, 2, 0, 0, 255, 255, 255, 0] @ replicate 8 0)\<rparr>"

definition demo_config :: net_config where
  "demo_config = \<lparr>OFC_DISCOVER_IPV4 = True, OFC_DISCOVER_IPV6 = True, OFC_DARWIN_IGNORE_EN5 = True,
     OFC_LOOPBACK = False\<rparr>"

theorem interface_enumeration_witness:
  "ofc_net_interface_count_impl demo_config (Some [demo_if\<lparr>ifa_name := ''en5''\<rparr>, demo_if]) = Some 1"
proof -
  have "addressed [demo_if\<lparr>ifa_name := ''en5''\<rparr>, demo_if]" by (simp add: addressed_def demo_if_def)
  from interface_enumeration [OF this, of demo_config] show ?thesis
    by (auto simp: usable_ifs_def wanted_def match_families_def demo_config_def demo_if_def IFF_UP_def
        IFF_LOOPBACK_def sa_family_def AF_INET_def)
qed

text \<open>
  The broadcast address of an IPv4 interface that is not the loopback keeps the address on the bits
  of the mask and has ones on the others.
\<close>

theorem interface_broadcast:
  assumes "ifa_addr i = Some sa" and "sa_family sa = AF_INET" and "ifa_netmask i = Some nm"
    and "ifa_flags i AND IFF_LOOPBACK = 0" and "OFC_INADDR_BROADCAST D = -1"
  shows "\<exists>pa pb pm. describe N D i (Some a, Some b, Some m) = Some (Some pa, Some pb, Some pm) \<and>
    ipv4_addr pb AND ipv4_addr pm = ipv4_addr pa AND ipv4_addr pm \<and>
    ipv4_addr pb AND NOT (ipv4_addr pm) = NOT (ipv4_addr pm)"
proof -
  have "(NOT y OR x) AND y = x AND y" "(NOT y OR x) AND NOT y = NOT y" for x y :: u32
    by (rule bit_word_eqI; auto simp: bit_simps)+
  then show ?thesis using assms by (simp add: describe_def store_def put_inet_def)
qed

definition demo_consts :: net_consts where
  "demo_consts = \<lparr>OFC_INADDR_NONE = -1, OFC_INADDR_BROADCAST = -1, OFC_INADDR_LOOPBACK = 0x7F000001,
     ofc_in6addr_bcast = (replicate 16 255, 0), ofc_in6addr_loopback = (replicate 15 0 @ [1], 0)\<rparr>"

definition demo_ip :: OFC_IPADDR where
  "demo_ip = \<lparr>ip_version = OFC_FAMILY_IP, ipv4_addr = 0, s6_addr = replicate 16 0, scope = 0\<rparr>"

theorem interface_broadcast_witness:
  "\<exists>pa pb pm. describe demo_net demo_consts demo_if (Some demo_ip, Some demo_ip, Some demo_ip) =
      Some (Some pa, Some pb, Some pm) \<and> ipv4_addr pb AND NOT (ipv4_addr pm) = NOT (ipv4_addr pm)"
proof -
  have "ifa_addr demo_if = Some ([16, 2, 0, 0, 192, 168, 7, 20] @ replicate 8 0)"
    "sa_family ([16, 2, 0, 0, 192, 168, 7, 20] @ replicate 8 0) = AF_INET"
    "ifa_netmask demo_if = Some ([16, 2, 0, 0, 255, 255, 255, 0] @ replicate 8 0)"
    "ifa_flags demo_if AND IFF_LOOPBACK = 0" "OFC_INADDR_BROADCAST demo_consts = -1"
    by (simp_all add: demo_if_def sa_family_def AF_INET_def IFF_LOOPBACK_def demo_consts_def)
  from interface_broadcast [OF this, of demo_net demo_ip demo_ip demo_ip] show ?thesis by blast
qed

text \<open>
  C28: \<open>ofc_net_resolve_dns_name_impl\<close> never writes past the number of addresses it is given room for,
  returns the smaller of that number and of the number of results, and stores the results in
  order; elements past the returned count are untouched.
\<close>

theorem resolve_dns_bounds:
  assumes "getaddrinfo name (hints_of G (pton name \<noteq> 0)) = Some res"
    and "unat num \<le> length ip"
  shows "\<exists>n out. ofc_net_resolve_dns_name_impl G N pton getaddrinfo name num ip = Some (n, out) \<and>
    unat n = min (unat num) (length res) \<and> length out = length ip \<and>
    (\<forall>k < unat n. out ! k = put_addrinfo N (res ! k) (ip ! k)) \<and>
    (\<forall>k. unat n \<le> k \<longrightarrow> k < length ip \<longrightarrow> out ! k = ip ! k)"
proof -
  let ?m = "min (unat num) (length res)"
  let ?out = "map (\<lambda>(p, v). put_addrinfo N p v) (zip res (take (unat num) ip)) @ drop ?m ip"
  have "unat num < 2 ^ 16" using unsigned_less [of num, where 'a = nat] by simp
  then have "?m < 2 ^ 16" by (simp add: min_less_iff_disj)
  then have "take_bit 16 ?m = ?m" by (rule take_bit_nat_eq_self)
  then have n: "unat (of_nat ?m :: u16) = ?m" by (simp only: unsigned_of_nat) simp
  have "resolve_loop N (unat num) res 0 ip = Some (?m, ?out)"
    using resolve_loop_eq [of 0 "unat num" ip N res] assms(2) by simp
  then have "ofc_net_resolve_dns_name_impl G N pton getaddrinfo name num ip = Some (of_nat ?m, ?out)"
    using assms(1) by (simp add: ofc_net_resolve_dns_name_impl_def)
  moreover have "length ?out = length ip" using assms(2) by simp
  moreover have "\<forall>k < ?m. ?out ! k = put_addrinfo N (res ! k) (ip ! k)"
    using assms(2) by (auto simp: nth_append)
  moreover have "\<forall>k. ?m \<le> k \<longrightarrow> k < length ip \<longrightarrow> ?out ! k = ip ! k"
    using assms(2) by (auto simp: nth_append min.commute [of "length res"])
  ultimately show ?thesis using n by metis
qed

definition demo_lookup :: "string \<Rightarrow> u8 \<times> u32 \<Rightarrow> addrinfo list option" where
  "demo_lookup name hints = Some [\<lparr>ai_family = AF_INET, ai_addr = replicate 16 9\<rparr>,
     \<lparr>ai_family = AF_INET, ai_addr = replicate 16 8\<rparr>]"

theorem resolve_dns_bounds_witness:
  "\<exists>n out. ofc_net_resolve_dns_name_impl demo_config demo_net (\<lambda>_. 0) demo_lookup ''host'' 1 [demo_ip] =
     Some (n, out) \<and> unat n = 1 \<and> length out = 1"
proof -
  have "demo_lookup ''host'' (hints_of demo_config ((\<lambda>_. 0) ''host'' \<noteq> (0 :: int))) =
      Some [\<lparr>ai_family = AF_INET, ai_addr = replicate 16 9\<rparr>, \<lparr>ai_family = AF_INET, ai_addr = replicate 16 8\<rparr>]"
    by (simp add: demo_lookup_def)
  moreover have "unat (1 :: u16) \<le> length [demo_ip]" by simp
  ultimately show ?thesis using resolve_dns_bounds [of demo_lookup "''host''" demo_config "\<lambda>_. 0" _ 1 "[demo_ip]" demo_net]
    by force
qed

end
