(* ===== verification/Lock_Darwin.thy ===== *)
theory Lock_Darwin
  imports Prelude
begin

text \<open>
  Locks (\<open>src/lock_darwin.c\<close>): a recursive \<open>pthread\<close> mutex in an allocated cell. \<open>OFC_LOCK_IMPL\<close>'s
  fields \<open>caller\<close> and \<open>thread\<close> are never used; what matters of the mutex is its owner and how often
  the owner holds it. \<open>None\<close> is a call that blocks, or the use of a lock that is not allocated.

  The specification counts, for every thread, how often it holds the lock.
\<close>

record OFC_LOCK_IMPL =
  lk_recursive :: bool
  lk_owner :: "nat option"
  lk_depth :: nat

type_synonym lock_store = "addr \<rightharpoonup> OFC_LOCK_IMPL"

section \<open>The operations\<close>

text \<open>\<open>m\<close> is what \<open>ofc_malloc\<close> returned; the code does not test it.\<close>

definition ofc_lock_init_impl :: "addr option \<Rightarrow> lock_store \<Rightarrow> (addr \<times> lock_store) option" where
  "ofc_lock_init_impl m L = do {
     a \<leftarrow> m;
     Some (a, L(a \<mapsto> \<lparr>lk_recursive = True, lk_owner = None, lk_depth = 0\<rparr>))
   }"

definition ofc_lock_destroy_impl :: "addr \<Rightarrow> lock_store \<Rightarrow> lock_store option" where
  "ofc_lock_destroy_impl a L = do { _ \<leftarrow> L a; Some (L(a := None)) }"

text \<open>
  \<open>pthread_mutex_trylock\<close> by thread \<open>t\<close>: true when it was taken. A mutex that is not recursive is
  busy for its owner too.
\<close>

definition trylock :: "nat \<Rightarrow> OFC_LOCK_IMPL \<Rightarrow> OFC_LOCK_IMPL option" where
  "trylock t l =
     (case lk_owner l of
        None \<Rightarrow> Some (l\<lparr>lk_owner := Some t, lk_depth := 1\<rparr>)
      | Some u \<Rightarrow> if u = t \<and> lk_recursive l then Some (l\<lparr>lk_depth := lk_depth l + 1\<rparr>) else None)"

definition ofc_lock_try_impl :: "nat \<Rightarrow> addr \<Rightarrow> lock_store \<Rightarrow> (bool \<times> lock_store) option" where
  "ofc_lock_try_impl t a L = do {
     l \<leftarrow> L a;
     (case trylock t l of None \<Rightarrow> Some (False, L) | Some l \<Rightarrow> Some (True, L(a \<mapsto> l)))
   }"

definition ofc_lock_impl :: "nat \<Rightarrow> addr \<Rightarrow> lock_store \<Rightarrow> lock_store option" where
  "ofc_lock_impl t a L = do { l \<leftarrow> L a; l \<leftarrow> trylock t l; Some (L(a \<mapsto> l)) }"

text \<open>\<open>pthread_mutex_unlock\<close> by a thread that does not hold the mutex fails and changes nothing.\<close>

definition ofc_unlock_impl :: "nat \<Rightarrow> addr \<Rightarrow> lock_store \<Rightarrow> lock_store option" where
  "ofc_unlock_impl t a L = do {
     l \<leftarrow> L a;
     Some (if lk_owner l = Some t
           then L(a \<mapsto> (if lk_depth l = 1 then l\<lparr>lk_owner := None, lk_depth := 0\<rparr>
                        else l\<lparr>lk_depth := lk_depth l - 1\<rparr>))
           else L)
   }"

section \<open>The specification\<close>

datatype lock_call = Op_lock nat | Op_try nat | Op_unlock nat

text \<open>The counters of the threads; a thread may take the lock when no other thread holds it.\<close>

type_synonym holds = "nat \<Rightarrow> nat"

definition free_for :: "nat \<Rightarrow> holds \<Rightarrow> bool" where
  "free_for t c \<longleftrightarrow> (\<forall>u. u \<noteq> t \<longrightarrow> c u = 0)"

fun count_op :: "lock_call \<Rightarrow> holds \<Rightarrow> (bool \<times> holds) option" where
  "count_op (Op_lock t) c = (if free_for t c then Some (True, c(t := c t + 1)) else None)"
| "count_op (Op_try t) c = Some (if free_for t c then (True, c(t := c t + 1)) else (False, c))"
| "count_op (Op_unlock t) c = Some (True, c(t := c t - 1))"

fun lock_op :: "addr \<Rightarrow> lock_call \<Rightarrow> lock_store \<Rightarrow> (bool \<times> lock_store) option" where
  "lock_op a (Op_lock t) L = map_option (Pair True) (ofc_lock_impl t a L)"
| "lock_op a (Op_try t) L = ofc_lock_try_impl t a L"
| "lock_op a (Op_unlock t) L = map_option (Pair True) (ofc_unlock_impl t a L)"

fun run_locks :: "('s \<Rightarrow> (bool \<times> 's) option) list \<Rightarrow> 's \<Rightarrow> (bool list \<times> 's) option" where
  "run_locks [] s = Some ([], s)"
| "run_locks (f # fs) s = do { (r, s) \<leftarrow> f s; (rs, s) \<leftarrow> run_locks fs s; Some (r # rs, s) }"

section \<open>The refinement\<close>

definition holds_of :: "OFC_LOCK_IMPL \<Rightarrow> holds" where
  "holds_of l = (\<lambda>t. if lk_owner l = Some t then lk_depth l else 0)"

definition lock_inv :: "OFC_LOCK_IMPL \<Rightarrow> bool" where
  "lock_inv l \<longleftrightarrow> lk_recursive l \<and> (lk_owner l = None \<longleftrightarrow> lk_depth l = 0)"

lemma free_for_holds:
  "lock_inv l \<Longrightarrow> free_for t (holds_of l) \<longleftrightarrow> lk_owner l = None \<or> lk_owner l = Some t"
  by (cases "lk_owner l") (auto simp: free_for_def holds_of_def lock_inv_def)

lemma trylock_eq:
  assumes "lock_inv l"
  shows "trylock t l = (if free_for t (holds_of l)
    then Some (l\<lparr>lk_owner := Some t, lk_depth := lk_depth l + 1\<rparr>) else None)"
  using assms by (cases "lk_owner l") (auto simp: trylock_def free_for_holds lock_inv_def)

lemma taken_holds:
  assumes "lock_inv l" and "free_for t (holds_of l)"
  shows "holds_of (l\<lparr>lk_owner := Some t, lk_depth := lk_depth l + 1\<rparr>) = (holds_of l)(t := holds_of l t + 1)"
    and "lock_inv (l\<lparr>lk_owner := Some t, lk_depth := lk_depth l + 1\<rparr>)"
proof -
  have "lk_owner l = None \<and> lk_depth l = 0 \<or> lk_owner l = Some t"
    using assms free_for_holds [OF assms(1), of t] by (auto simp: lock_inv_def)
  then show "holds_of (l\<lparr>lk_owner := Some t, lk_depth := lk_depth l + 1\<rparr>) = (holds_of l)(t := holds_of l t + 1)"
    by (auto simp: holds_of_def fun_eq_iff)
  show "lock_inv (l\<lparr>lk_owner := Some t, lk_depth := lk_depth l + 1\<rparr>)"
    using assms(1) by (simp add: lock_inv_def)
qed

lemma unlock_holds:
  assumes "lock_inv l" and "L a = Some l"
  shows "\<exists>l'. ofc_unlock_impl t a L = Some (L(a \<mapsto> l')) \<and> lock_inv l' \<and>
    holds_of l' = (holds_of l)(t := holds_of l t - 1)"
proof (cases "lk_owner l = Some t")
  case True
  then show ?thesis
    using assms by (auto simp: ofc_unlock_impl_def holds_of_def lock_inv_def fun_eq_iff)
next
  case False
  then have "holds_of l = (holds_of l)(t := holds_of l t - 1)" by (simp add: holds_of_def fun_eq_iff)
  with False assms show ?thesis
    by (intro exI [of _ l]) (simp add: ofc_unlock_impl_def fun_upd_idem)
qed

lemma lock_op_refines:
  assumes "lock_inv l" and "L a = Some l"
  shows "case count_op x (holds_of l) of
      None \<Rightarrow> lock_op a x L = None
    | Some (r, c) \<Rightarrow> \<exists>l'. lock_op a x L = Some (r, L(a \<mapsto> l')) \<and> lock_inv l' \<and> holds_of l' = c"
proof (cases x)
  case (Op_lock t)
  then show ?thesis
    using assms taken_holds [OF assms(1), of t] by (auto simp: ofc_lock_impl_def trylock_eq)
next
  case (Op_try t)
  then show ?thesis
    using assms taken_holds [OF assms(1), of t]
    by (cases "free_for t (holds_of l)")
      (auto simp: ofc_lock_try_impl_def trylock_eq fun_upd_idem intro: exI [of _ l])
next
  case (Op_unlock t)
  then show ?thesis using unlock_holds [of l L a t, OF assms] by auto
qed

text \<open>
  C13: A lock counts: for any sequence of lock, try and unlock calls by any threads on a lock made by
  \<open>ofc_lock_init_impl\<close>, the calls return, block and answer as on one counter per thread where a
  thread may take the lock exactly when no other holds it, and must give it back as often as it
  took it.
\<close>

theorem lock_refines_counters:
  assumes "ofc_lock_init_impl m L0 = Some (a, L)"
  shows "case run_locks (map count_op xs) (\<lambda>_. 0) of
      None \<Rightarrow> run_locks (map (lock_op a) xs) L = None
    | Some (rs, c) \<Rightarrow> \<exists>l L'. run_locks (map (lock_op a) xs) L = Some (rs, L') \<and> L' a = Some l \<and> holds_of l = c"
proof -
  have refine: "case run_locks (map count_op xs) (holds_of l) of
      None \<Rightarrow> run_locks (map (lock_op a) xs) L = None
    | Some (rs, c) \<Rightarrow> \<exists>l L'. run_locks (map (lock_op a) xs) L = Some (rs, L') \<and> L' a = Some l \<and> holds_of l = c"
    if "lock_inv l" "L a = Some l" for l L
    using that
  proof (induction xs arbitrary: l L)
    case (Cons x xs)
    show ?case
    proof (cases "count_op x (holds_of l)")
      case None
      then show ?thesis using lock_op_refines [of l L a x, OF Cons.prems] by simp
    next
      case (Some y)
      obtain r c where y: "y = (r, c)" by (cases y)
      then obtain l' where l': "lock_op a x L = Some (r, L(a \<mapsto> l'))" "lock_inv l'" "holds_of l' = c"
        using lock_op_refines [of l L a x, OF Cons.prems] Some by auto
      then show ?thesis
        using Cons.IH [OF l'(2), of "L(a \<mapsto> l')"] Some y by (auto split: option.splits)
    qed
  qed auto
  let ?l = "\<lparr>lk_recursive = True, lk_owner = None, lk_depth = 0\<rparr>"
  have "L a = Some ?l" "lock_inv ?l"
    using assms by (auto simp: ofc_lock_init_impl_def lock_inv_def elim!: bind_SomeE)
  from refine [of ?l L, OF this(2,1)] show ?thesis by (simp add: holds_of_def)
qed

theorem lock_refines_counters_witness:
  "\<exists>L L'. ofc_lock_init_impl (Some 4) Map.empty = Some (4, L) \<and>
     run_locks (map (lock_op 4) [Op_lock 2, Op_lock 2, Op_try 3, Op_unlock 2, Op_try 3, Op_unlock 2, Op_try 3]) L =
     Some ([True, True, False, True, False, True, True], L')"
proof -
  let ?xs = "[Op_lock 2, Op_lock 2, Op_try 3, Op_unlock 2, Op_try 3, Op_unlock 2, Op_try 3]"
  let ?L = "[4 \<mapsto> \<lparr>lk_recursive = True, lk_owner = None, lk_depth = 0\<rparr>]"
  have i: "ofc_lock_init_impl (Some 4) Map.empty = Some (4, ?L)" by (simp add: ofc_lock_init_impl_def)
  have "\<exists>c. run_locks (map count_op ?xs) (\<lambda>_. 0) = Some ([True, True, False, True, False, True, True], c)"
  proof -
    have "free_for t ((\<lambda>_. 0)(u := n)) \<longleftrightarrow> t = u \<or> n = 0" "free_for t (\<lambda>_. 0)"
      "(\<lambda>_. 0)(u := 0) = ((\<lambda>_. 0) :: holds)" for t u n
      by (auto simp: free_for_def)
    then show ?thesis by simp
  qed
  with lock_refines_counters [OF i, of ?xs] have "\<exists>L'. run_locks (map (lock_op 4) ?xs) ?L =
      Some ([True, True, False, True, False, True, True], L')" by (auto simp del: run_locks.simps)
  with i show ?thesis by blast
qed

end
