(* ===== verification/Console_Darwin.thy ===== *)
theory Console_Darwin
  imports Prelude
begin

text \<open>
  The console and the environment (\<open>src/console_darwin.c\<close>, \<open>src/env_darwin.c\<close>): the descriptor
  that is opened on first use, the two reads into a caller's buffer, and the lookup of the
  variables of of_core. A buffer is the list of its characters, as long as its memory; a read or
  write past its end is \<open>None\<close>.
\<close>

section \<open>Writing\<close>

record console =
  g_fd :: int
  written :: "(int \<times> string) list"

definition STDOUT_FILENO :: int where "STDOUT_FILENO = 1"

definition open_log :: "console \<Rightarrow> console" where
  "open_log c = c\<lparr>g_fd := STDOUT_FILENO\<rparr>"

definition ofc_write_stdout_impl :: "string \<Rightarrow> nat \<Rightarrow> console \<Rightarrow> console" where
  "ofc_write_stdout_impl obuf len c =
     (let c = (if g_fd c = -1 then open_log c else c)
      in c\<lparr>written := written c @ [(g_fd c, take len obuf)]\<rparr>)"

definition ofc_write_log_impl :: "nat \<Rightarrow> string \<Rightarrow> nat \<Rightarrow> console \<Rightarrow> console" where
  "ofc_write_log_impl level obuf len c = ofc_write_stdout_impl obuf len c"

section \<open>Strings in buffers\<close>

definition NUL :: char where "NUL = CHR 0x00"

definition ofc_strlen :: "string \<Rightarrow> nat option" where
  "ofc_strlen buf =
     (let n = first_index (\<lambda>c. c = NUL) buf in if n < length buf then Some n else None)"

definition c_string :: "string \<Rightarrow> string" where
  "c_string buf = takeWhile (\<lambda>c. c \<noteq> NUL) buf"

definition ofc_write_console_impl :: "string \<Rightarrow> console \<Rightarrow> console option" where
  "ofc_write_console_impl obuf c = do {
     n \<leftarrow> ofc_strlen obuf;
     Some (ofc_write_stdout_impl obuf n c)
   }"

text \<open>Storing at an index.\<close>

definition put_char :: "nat \<Rightarrow> char \<Rightarrow> string \<Rightarrow> string option" where
  "put_char i c buf = (if i < length buf then Some (buf[i := c]) else None)"

section \<open>Reading\<close>

text \<open>
  \<open>fgets(buf, n, stdin)\<close> on the input that is there: at most \<open>n - 1\<close> characters, up to and with
  the first newline, and a null character; nothing is stored at the end of the input.
\<close>

definition line_of :: "nat \<Rightarrow> string \<Rightarrow> string" where
  "line_of n input = take n (takeWhile (\<lambda>c. c \<noteq> CHR 0x0A) input @
     (if CHR 0x0A \<in> set input then [CHR 0x0A] else []))"

definition fgets :: "int \<Rightarrow> string \<Rightarrow> string \<Rightarrow> (string \<times> string) option" where
  "fgets n buf input =
     (if n \<le> 0 \<or> (1 < n \<and> input = []) then Some (buf, input)
      else
        let l = line_of (nat (n - 1)) input in
        if length l < length buf
        then Some (l @ [NUL] @ drop (length l + 1) buf, drop (length l) input)
        else None)"

definition ofc_read_stdin_impl :: "nat \<Rightarrow> string \<Rightarrow> string \<Rightarrow> (string \<times> string) option" where
  "ofc_read_stdin_impl len inbuf input = do {
     (inbuf, input) \<leftarrow> fgets (signed_take_bit 31 (int len)) inbuf input;
     n \<leftarrow> ofc_strlen inbuf;
     let len = (if n < len then n else len);
     inbuf \<leftarrow> (if len = 0 then None else put_char (len - 1) NUL inbuf);
     Some (inbuf, input)
   }"

text \<open>
  \<open>ofc_strncpy\<close> of of_core is a parameter, \<open>pass\<close> what \<open>getpass\<close> returned. \<open>len - 1\<close> is computed at
  the width of \<open>OFC_SIZET\<close> and wraps for a length of 0.
\<close>

definition ofc_read_password_impl ::
  "(string \<Rightarrow> string \<Rightarrow> u64 \<Rightarrow> string) \<Rightarrow> string \<Rightarrow> u64 \<Rightarrow> string \<Rightarrow> string option" where
  "ofc_read_password_impl ofc_strncpy pass len inbuf =
     put_char (unat len) NUL (ofc_strncpy inbuf pass (len - 1))"

section \<open>The environment\<close>

text \<open>
  \<open>OFC_ENV_NUM\<close>, the number of variables, is of of_core; elements past the three names are null
  and looking one up is undefined.
\<close>

definition env2str :: "nat \<Rightarrow> string option" where
  "env2str v = (if v < 3 then Some ([''OPEN_FILES_HOME'', ''OPEN_FILES_INSTALL'', ''OPEN_FILES_ROOT''] ! v)
                else None)"

definition ofc_env_get_impl ::
  "nat \<Rightarrow> (string \<Rightarrow> string option) \<Rightarrow> (string \<Rightarrow> string \<Rightarrow> nat \<Rightarrow> string) \<Rightarrow> nat \<Rightarrow> string option \<Rightarrow> nat \<Rightarrow>
   (bool \<times> string option) option" where
  "ofc_env_get_impl OFC_ENV_NUM getenv ofc_tstrncpy v ptr len =
     (if ptr \<noteq> None \<and> v < OFC_ENV_NUM then do {
        name \<leftarrow> env2str v;
        (case getenv name of
           None \<Rightarrow> Some (False, ptr)
         | Some path \<Rightarrow> Some (True, map_option (\<lambda>b. ofc_tstrncpy b path len) ptr))
      } else Some (False, ptr))"

section \<open>Properties\<close>

lemma first_index_append:
  "\<forall>x \<in> set xs. \<not> P x \<Longrightarrow> first_index P (xs @ ys) = length xs + first_index P ys"
  by (induction xs) simp_all

lemma no_newline [simp]:
  "CHR 0x0A \<notin> set l \<Longrightarrow> takeWhile (\<lambda>c. c \<noteq> CHR 0x0A) l = l"
  "CHR 0x0A \<notin> set l \<Longrightarrow> takeWhile (\<lambda>c. c \<noteq> CHR 0x0A) (l @ CHR 0x0A # rest) = l"
  by (induction l) auto

lemma c_string_stop: "NUL \<notin> set l \<Longrightarrow> c_string (l @ NUL # rest) = l"
  unfolding c_string_def by (induction l) auto

lemma nat_pred: "nat (int n - 1) = n - 1"
  by linarith

lemma line_fits:
  assumes "CHR 0x0A \<notin> set l" and "length l + 1 < n"
  shows "line_of (n - 1) (l @ CHR 0x0A # rest) = l @ [CHR 0x0A]"
  using assms by (simp add: line_of_def)

text \<open>
  C37: A line that fits the buffer is read without its newline: after \<open>ofc_read_stdin_impl\<close> the
  buffer holds the line as a string, and the input continues after the newline.
\<close>

theorem read_stdin_line:
  assumes "CHR 0x0A \<notin> set l" and "NUL \<notin> set l" and "length l + 1 < len" and "len < 2 ^ 31"
    and "length inbuf = len"
  shows "\<exists>out. ofc_read_stdin_impl len inbuf (l @ CHR 0x0A # rest) = Some (out, rest) \<and> c_string out = l"
proof -
  let ?b = "l @ [CHR 0x0A, NUL] @ drop (length l + 2) inbuf"
  have n: "signed_take_bit 31 (int len) = int len"
    using assms(4) by (intro signed_take_bit_int_eq_self) simp_all
  have "line_of (nat (int len - 1)) (l @ CHR 0x0A # rest) = l @ [CHR 0x0A]"
    unfolding nat_pred by (rule line_fits [OF assms(1,3)])
  then have f: "fgets (int len) inbuf (l @ CHR 0x0A # rest) = Some (?b, rest)"
    using assms(3,5) by (simp add: fgets_def)
  have "first_index (\<lambda>c. c = NUL) ?b = length l + 1"
    using assms(2) first_index_append [of l "\<lambda>c. c = NUL" "[CHR 0x0A, NUL] @ drop (length l + 2) inbuf"]
    by (auto simp: NUL_def)
  then have "ofc_strlen ?b = Some (length l + 1)" by (simp add: ofc_strlen_def)
  moreover have "put_char (length l) NUL ?b = Some (l @ [NUL, NUL] @ drop (length l + 2) inbuf)"
    by (simp add: put_char_def list_update_append)
  moreover have "c_string (l @ [NUL, NUL] @ drop (length l + 2) inbuf) = l"
    using c_string_stop [OF assms(2)] by simp
  ultimately show ?thesis
    using f n assms(3) by (simp add: ofc_read_stdin_impl_def)
qed

theorem read_stdin_line_witness:
  "\<exists>out. ofc_read_stdin_impl 6 ''......'' ''ab\<newline>cd'' = Some (out, ''cd'') \<and> c_string out = ''ab''"
  using read_stdin_line [of "''ab''" 6 "''......''" "''cd''"] by (simp add: NUL_def)

text \<open>
  A line too long for the buffer loses a character: \<open>fgets\<close> stores its first \<open>len - 1\<close>
  characters, the last of which is then overwritten as if it were the newline, while the input
  continues after it.
\<close>

theorem read_stdin_long_line:
  assumes "CHR 0x0A \<notin> set l" and "NUL \<notin> set l" and "len - 1 \<le> length l" and "2 < len" and "len < 2 ^ 31"
    and "length inbuf = len"
  shows "\<exists>out. ofc_read_stdin_impl len inbuf l = Some (out, drop (len - 1) l) \<and>
    c_string out = take (len - 2) l"
proof -
  let ?h = "take (len - 1) l"
  have n: "signed_take_bit 31 (int len) = int len"
    using assms(5) by (intro signed_take_bit_int_eq_self) simp_all
  have "line_of (nat (int len - 1)) l = ?h" using assms(1) by (simp add: line_of_def nat_pred)
  then have f: "fgets (int len) inbuf l = Some (?h @ [NUL] @ drop len inbuf, drop (len - 1) l)"
    using assms(3,4,6) by (auto simp: fgets_def min_def)
  have h: "NUL \<notin> set ?h" "length ?h = len - 1" using assms(2,3) by (auto dest: in_set_takeD)
  then have "first_index (\<lambda>c. c = NUL) (?h @ [NUL]) = len - 1"
    using first_index_append [of ?h "\<lambda>c. c = NUL" "[NUL]"] by auto
  then have s: "ofc_strlen (?h @ [NUL]) = Some (len - 1)" using h(2) by (simp add: ofc_strlen_def)
  have split: "?h = take (len - 2) l @ [l ! (len - 2)]"
  proof -
    have e: "len - 1 = Suc (len - 2)" using assms(4) by simp
    show ?thesis unfolding e using assms(3,4) by (intro take_Suc_conv_app_nth) simp
  qed
  have "put_char (len - 2) NUL (?h @ [NUL]) = Some (take (len - 2) l @ [NUL, NUL])"
    using assms(3,4) unfolding split by (simp add: put_char_def list_update_append)
  moreover have "c_string (take (len - 2) l @ [NUL, NUL]) = take (len - 2) l"
    using assms(2) c_string_stop [of "take (len - 2) l" "[NUL]"] by (auto dest: in_set_takeD)
  moreover have "len - 1 - 1 = len - 2" by simp
  ultimately show ?thesis
    using f n s assms(4,6) by (simp add: ofc_read_stdin_impl_def)
qed

theorem read_stdin_long_line_witness:
  "\<exists>out. ofc_read_stdin_impl 4 ''....'' ''abcde'' = Some (out, ''de'') \<and> c_string out = ''ab''"
  using read_stdin_long_line [of "''abcde''" 4 "''....''"] by (simp add: NUL_def)

text \<open>The string that \<open>fgets\<close> leaves begins with the first character of the line.\<close>

lemma line_of_Cons: "0 < n \<Longrightarrow> \<exists>l. line_of n (c # input) = c # l"
  by (cases n) (auto simp: line_of_def)

lemma strlen_Cons:
  "ofc_strlen (NUL # b) = Some 0"
  "c \<noteq> NUL \<Longrightarrow> ofc_strlen (c # b) = map_option Suc (ofc_strlen b)"
  by (simp_all add: ofc_strlen_def)

lemma first_index_less: "first_index P xs < length xs \<longleftrightarrow> (\<exists>x \<in> set xs. P x)"
  by (induction xs) auto

lemma strlen_None: "ofc_strlen b = None \<longleftrightarrow> NUL \<notin> set b"
  by (auto simp: ofc_strlen_def Let_def first_index_less)

text \<open>What happens to the string after \<open>fgets\<close>.\<close>

definition cut_newline :: "nat \<Rightarrow> string \<Rightarrow> string option" where
  "cut_newline len b = do {
     n \<leftarrow> ofc_strlen b;
     let len = (if n < len then n else len);
     if len = 0 then None else put_char (len - 1) NUL b
   }"

lemma cut_newline_None:
  assumes "length b = len" and "b \<noteq> []"
  shows "cut_newline len b = None \<longleftrightarrow> NUL \<notin> set b \<or> hd b = NUL"
proof (cases b)
  case (Cons c r)
  show ?thesis
  proof (cases "ofc_strlen b")
    case None
    then show ?thesis by (simp add: cut_newline_def flip: strlen_None)
  next
    case (Some n)
    then have n: "n < len" "NUL \<in> set b"
      using assms(1) by (auto simp: ofc_strlen_def Let_def first_index_less split: if_splits)
    have "n = 0 \<longleftrightarrow> c = NUL"
      using Some strlen_Cons(1) [of r] strlen_Cons(2) [of c r] by (cases "c = NUL") (auto simp: Cons)
    then show ?thesis using Some n assms(1) by (auto simp: cut_newline_def put_char_def Cons)
  qed
qed (use assms in simp)



text \<open>
  \<open>ofc_env_get_impl\<close> answers true exactly when there is a buffer, the variable is one of the three
  and the environment has it, and then and only then copies its value into the buffer.
\<close>

theorem env_get_spec:
  assumes "n = 3"
  shows "\<exists>r out. ofc_env_get_impl n getenv cpy v ptr len = Some (r, out) \<and>
    (r \<longleftrightarrow> ptr \<noteq> None \<and> Option.bind (env2str v) getenv \<noteq> None) \<and>
    (r \<longrightarrow> out = Some (cpy (the ptr) (the (Option.bind (env2str v) getenv)) len)) \<and>
    (\<not> r \<longrightarrow> out = ptr)"
  using assms by (cases ptr) (auto simp: ofc_env_get_impl_def env2str_def split: option.split)

theorem env_get_spec_witness:
  "\<exists>out. ofc_env_get_impl 3 (\<lambda>_. Some ''/opt'') (\<lambda>b s n. s) 2 (Some []) 9 = Some (True, out)"
  using env_get_spec [OF refl, of "\<lambda>_. Some ''/opt''" "\<lambda>b s n. s" 2 "Some []" 9] by (auto simp: env2str_def)

end
