(* ===== verification/Spec2Isabelle.thy ===== *)
theory Spec2Isabelle
  imports Stop_Request Waitset_Life Waitset_Threads Waitset_Invariant Event_Steps Time_Correct
    Socket_Descriptors Net_Darwin Lock_Darwin Process_Darwin Console_Darwin
begin

text \<open>
  A model of \<open>of_core_darwin\<close>, the Darwin platform layer of the Open Files core library
  \<open>of_core\<close>: events, wait sets (the scheduler's wait), threads, locks, the clock and the
  calendar, sockets, the network configuration, processes, the console and the environment.
  Sources are named \<open>src/<file>\<close> below; the operations keep the names of the code.

  \<^bold>\<open>How the parts meet.\<close> \<open>of_core\<close> is the library above: it owns the table of handles, queues,
  wait queues, timers and files, and calls this layer. Its sources are not here, so its services
  are the fields of the record \<open>core_api\<close> (\<open>Platform\<close>), an argument of every definition that uses
  them, and what the code relies on is \<open>handle_laws\<close> (locks count references and change no answer,
  a handle names one object) and \<open>lifecycle_laws\<close> (creating and destroying); \<open>fifo_laws\<close> is the
  same for its queues, \<open>net_laws\<close> for its byte-order macros, \<open>disjoint_bits\<close> for its event
  constants. \<open>Demo_Core\<close> and \<open>Demo_Sched\<close> give one concrete library that satisfies them; witnesses
  run on it. An event that is set notifies the wait set it belongs to by writing its handle to the
  set's pipe (\<open>src/event_darwin.c\<close>, \<open>src/waitset_darwin.c\<close>); the scheduler purges the pipe, scans the
  members, and blocks in \<open>poll\<close> on the pipe and the sockets; stopping a thread wakes the wait set it
  is attached to (\<open>src/thread_darwin.c\<close>).

  \<^bold>\<open>The world.\<close> \<open>world\<close> (\<open>Platform\<close>) holds the library's state, the allocated cells by address, one
  map per struct (an address outside the map is freed or never allocated), the pipes and descriptors
  of the kernel, and the list of the other system calls made. Operations return an \<open>option\<close>: \<open>None\<close>
  is a step outside the language's guarantees (a null or freed pointer, an index outside an array)
  or a call that does not return. System calls of sockets are answered by a \<open>kernel\<close>, a function of
  the calls so far, with a value, \<open>errno\<close> and bytes.

  \<^bold>\<open>Theories.\<close>
  \<open>Prelude\<close>: integer types, collections of rewrite rules, lemmas on lists and options.
  \<open>Platform\<close>: handles, structs, the world, \<open>core_api\<close>.
  \<open>Signal_Darwin\<close> (\<open>src/waitset_darwin.c\<close>: create, destroy, signal, wake, the purge loop): the locale
  \<open>notifier\<close> states that a wait set is a bounded queue of notifications; the pipe provides it.
  \<open>Event_Darwin\<close> (\<open>src/event_darwin.c\<close>): the operations, the locale \<open>event_ops\<close> of what the scan needs
  of events, and its interpretation. \<open>Event_Correct\<close>: the operations refine a map of flags, life
  cycle. \<open>Event_Threads\<close>: the same operations as interleaved steps of several threads with the mutex
  and the condition variable; mutual exclusion, no lost wake-up, progress. \<open>Event_Steps\<close>: these steps,
  taken by one undisturbed thread, are the operations of \<open>Event_Darwin\<close>.
  \<open>Socket_Events\<close> (\<open>src/socket_darwin.c\<close>: the event masks).
  \<open>Waitset_Darwin\<close> (\<open>src/waitset_darwin.c\<close>: \<open>PollEvent\<close>, wait, add, assoc, debug). \<open>Waitset_Facts\<close>: the
  locale \<open>poll_client\<close>, closed forms of the purge, the scan and \<open>PollEvent\<close>. \<open>Waitset_Correct\<close>:
  which member a wait returns and when. \<open>Waitset_Life\<close>: life cycle, adding, printing.
  \<open>Waitset_Threads\<close>: the wait on a set of events as steps interleaved with threads that raise, lower
  and wake; no sleep on a raised event, every raised event is reported, and agreement of the steps
  with the wait, with setting and resetting an event and with a wake-up.
  \<open>Waitset_Invariant\<close>: what can be waited on stays so under the operations that neither create nor
  destroy an object.
  \<open>Thread_Darwin\<close>, \<open>Thread_Correct\<close> (\<open>src/thread_darwin.c\<close>): the operations; cells and handles are
  in one-to-one step, also under threads that create and join threads; stop requests, join, detach,
  sleep, variables. \<open>Stop_Request\<close>: threads together with wait sets.
  \<open>Time_Darwin\<close>, \<open>Time_Facts\<close>, \<open>Time_Correct\<close> (\<open>src/time_darwin.c\<close>): the conversions against a
  Gregorian calendar defined day by day (\<open>next_date\<close>), round trips, order, DOS dates.
  \<open>Sockaddr\<close>, \<open>Socket_Darwin\<close>, \<open>Socket_Correct\<close>, \<open>Socket_Life\<close> (\<open>src/socket_darwin.c\<close>): addresses as
  bytes, the operations as bodies inside the frame \<open>on_socket\<close>, the locale \<open>under_lock\<close> for that
  frame with an interpretation per operation, and the life of a socket. \<open>Socket_Descriptors\<close>: over any
  sequence of operations the open descriptors are those the cells hold (locale \<open>talker\<close>: the
  operations that open and close none).
  \<open>Net_Darwin\<close> (\<open>src/net_darwin.c\<close>), \<open>Lock_Darwin\<close> (\<open>src/lock_darwin.c\<close>), \<open>Process_Darwin\<close>
  (\<open>src/process_darwin.c\<close>), \<open>Console_Darwin\<close> (\<open>src/console_darwin.c\<close>, \<open>src/env_darwin.c\<close>).

  \<^bold>\<open>Loops and bounds.\<close> Loops over lists are structural recursions; the loops of the calendar are
  \<open>function\<close>s with a measure (\<open>find_year\<close> ends since a year has at least 365 days). The loops that
  read a pipe until it is empty (\<open>drain\<close>, \<open>PollEvent\<close>) are \<open>partial_function (option)\<close>; that they
  return is proved from the contract of the pipe. Integers have their width where it matters
  (\<open>u16\<close>, \<open>u32\<close>, \<open>u64\<close>); the calendar uses \<open>int\<close> with the truncating division of C and overflow of
  \<open>int\<close> as \<open>None\<close>, and its theorems state the range of times they hold in (below \<open>2 ^ 55\<close> seconds for
  totality, 32 bits for the round trip through \<open>ofc_time_make_time\<close>).

  \<^bold>\<open>Not modelled.\<close> \<open>src/backtrace_darwin.c\<close> is one call of the C library. The functions with an
  empty body (\<open>ofc_thread_init\<close> and its siblings, \<open>ofc_net_register_config\<close>, \<open>ofc_net_set_handle_impl\<close>)
  and code the build leaves out (\<open>#if 0\<close>, \<open>DEBUG_WRAP\<close>, the dump of \<open>OFC_APP_DEBUG\<close> in
  \<open>ofc_waitset_debug\<close>, a log file) have no definition. \<open>pthread_join\<close> is a step made when the thread has
  ended. In the interleaved model of an event, notifying the wait set is a step without effect on
  the event; \<open>Waitset_Threads\<close> models that side. The file
  system operations that \<open>include/ofc_darwin/fs_darwin.h\<close> declares are not in the repository.
  Allocation failure is modelled where the code tests for it. Memory consumed by buffers is not
  tracked.
\<close>

end
